(* ===== verification/Spid_Prelude.thy ===== *)
theory Spid_Prelude
  imports Main "HOL-Library.Word" "HOL-Library.Monad_Syntax"
begin

text \<open>
  Shared vocabulary of the development: the fixed-width integer types of
  \<^verbatim>\<open><stdint.h>\<close>, byte memories, little-endian encodings, and the calculus in which
  the component proofs are carried out.

  A C computation is a function into \<^typ>\<open>'a option\<close>. The value \<^term>\<open>None\<close> stands for a run
  with no defined result: an access outside an object, or a loop that does not end.
  \<open>holds m Q\<close> is total correctness: the computation is defined and its result satisfies
  \<open>Q\<close>. \<open>returns m Q\<close> is the partial form.
\<close>

unbundle bit_operations_syntax

type_synonym u8 = "8 word"
type_synonym u16 = "16 word"
type_synonym u32 = "32 word"
type_synonym u64 = "64 word"

type_synonym mem = "nat \<Rightarrow> u8"

named_theorems wp_simps "weakest preconditions of the option calculus"
named_theorems frame_simps "state components an operation leaves alone"
named_theorems const_defs "numeric constants of the sources"

section \<open>Total and partial correctness\<close>

definition holds :: "'a option \<Rightarrow> ('a \<Rightarrow> bool) \<Rightarrow> bool" where
  "holds m Q = (case m of None \<Rightarrow> False | Some x \<Rightarrow> Q x)"

definition returns :: "'a option \<Rightarrow> ('a \<Rightarrow> bool) \<Rightarrow> bool" where
  "returns m Q = (case m of None \<Rightarrow> True | Some x \<Rightarrow> Q x)"

lemma holds_None [wp_simps]: "holds None Q = False"
  and holds_Some [wp_simps]: "holds (Some x) Q = Q x"
  and returns_None [wp_simps]: "returns None Q = True"
  and returns_Some [wp_simps]: "returns (Some x) Q = Q x"
  by (simp_all add: holds_def returns_def)

lemma holds_bind [wp_simps]: "holds (Option.bind m f) Q = holds m (\<lambda>x. holds (f x) Q)"
  by (cases m) (simp_all add: wp_simps)

lemma returns_bind [wp_simps]: "returns (Option.bind m f) Q = returns m (\<lambda>x. returns (f x) Q)"
  by (cases m) (simp_all add: wp_simps)

lemma holds_if [wp_simps]:
  "holds (if b then m else n) Q = ((b \<longrightarrow> holds m Q) \<and> (\<not> b \<longrightarrow> holds n Q))"
  by simp

lemma returns_if [wp_simps]:
  "returns (if b then m else n) Q = ((b \<longrightarrow> returns m Q) \<and> (\<not> b \<longrightarrow> returns n Q))"
  by simp

lemma holds_iff: "holds m Q \<longleftrightarrow> (\<exists>x. m = Some x \<and> Q x)"
  by (cases m) (simp_all add: wp_simps)

lemma returns_iff: "returns m Q \<longleftrightarrow> (\<forall>x. m = Some x \<longrightarrow> Q x)"
  by (cases m) (simp_all add: wp_simps)

lemma holds_mono: "holds m P \<Longrightarrow> (\<And>x. m = Some x \<Longrightarrow> P x \<Longrightarrow> Q x) \<Longrightarrow> holds m Q"
  by (auto simp: holds_iff)

lemma returns_mono: "returns m P \<Longrightarrow> (\<And>x. m = Some x \<Longrightarrow> P x \<Longrightarrow> Q x) \<Longrightarrow> returns m Q"
  by (auto simp: returns_iff)

lemma returns_all: "(\<And>x. Q x) \<Longrightarrow> returns m Q"
  by (simp add: returns_iff)

lemma holds_returns: "holds m P \<Longrightarrow> returns m Q \<Longrightarrow> holds m (\<lambda>x. P x \<and> Q x)"
  by (auto simp: holds_iff returns_iff)

text \<open>An access that is only defined inside its object.\<close>

definition guard :: "bool \<Rightarrow> unit option" where
  "guard b = (if b then Some () else None)"

lemma holds_guard [wp_simps]: "holds (guard b) Q = (b \<and> Q ())"
  and returns_guard [wp_simps]: "returns (guard b) Q = (b \<longrightarrow> Q ())"
  by (auto simp: guard_def wp_simps)

lemma guard_Some_iff [simp]: "guard b = Some u \<longleftrightarrow> b"
  by (simp add: guard_def)

lemma guard_simps [simp]: "guard True = Some ()" "guard False = None"
  by (simp_all add: guard_def)

section \<open>Byte memories\<close>

text \<open>
  A byte array is a total function on its offsets; the operations that copy blocks are
  \<open>mem_read\<close> and \<open>mem_write\<close> (\<^verbatim>\<open>memcpy\<close>). Bounds are checked by the callers.
\<close>

definition mem_read :: "mem \<Rightarrow> nat \<Rightarrow> nat \<Rightarrow> u8 list" where
  "mem_read m off n = map m [off ..< off + n]"

definition mem_write :: "nat \<Rightarrow> u8 list \<Rightarrow> mem \<Rightarrow> mem" where
  "mem_write off bs m = (\<lambda>i. if off \<le> i \<and> i < off + length bs then bs ! (i - off) else m i)"

lemma length_mem_read [simp]: "length (mem_read m off n) = n"
  by (simp add: mem_read_def)

lemma nth_mem_read [simp]: "i < n \<Longrightarrow> mem_read m off n ! i = m (off + i)"
  by (simp add: mem_read_def)

lemma mem_read_0 [simp]: "mem_read m off 0 = []"
  by (simp add: mem_read_def)

lemma mem_read_Suc: "mem_read m off (Suc n) = m off # mem_read m (Suc off) n"
  by (rule nth_equalityI) (auto simp: nth_Cons split: nat.splits)

lemma mem_read_add: "mem_read m off (a + b) = mem_read m off a @ mem_read m (off + a) b"
  by (rule nth_equalityI) (auto simp: nth_append)

lemma mem_write_nth [simp]: "i < length bs \<Longrightarrow> mem_write off bs m (off + i) = bs ! i"
  by (simp add: mem_write_def)

lemma mem_write_other: "i < off \<or> off + length bs \<le> i \<Longrightarrow> mem_write off bs m i = m i"
  by (auto simp: mem_write_def)

lemma mem_read_write_same [simp]:
  "n = length bs \<Longrightarrow> mem_read (mem_write off bs m) off n = bs"
  by (rule nth_equalityI) auto

lemma mem_read_write_prefix:
  "n \<le> length bs \<Longrightarrow> mem_read (mem_write off bs m) off n = take n bs"
  by (rule nth_equalityI) auto

lemma mem_read_write_disjoint:
  "off + n \<le> a \<or> a + length bs \<le> off \<Longrightarrow> mem_read (mem_write a bs m) off n = mem_read m off n"
  by (rule nth_equalityI) (auto simp: mem_write_def)

lemma mem_write_append:
  "mem_write (off + length xs) ys (mem_write off xs m) = mem_write off (xs @ ys) m"
  by (rule ext) (auto simp: mem_write_def nth_append)

lemma mem_write_Nil [simp]: "mem_write off [] m = m"
  by (rule ext) (auto simp: mem_write_def)

lemma mem_write_read_id [simp]: "mem_write off (mem_read m off n) m = m"
  by (rule ext) (auto simp: mem_write_def)

lemma mem_read_cong: "(\<And>i. off \<le> i \<Longrightarrow> i < off + n \<Longrightarrow> m i = m' i) \<Longrightarrow> mem_read m off n = mem_read m' off n"
  by (rule nth_equalityI) auto

lemma mem_read_blocks: "mem_read m 0 (n * k) = concat (map (\<lambda>i. mem_read m (i * k) k) [0..<n])"
proof (induction n)
  case (Suc n)
  have "mem_read m 0 (Suc n * k) = mem_read m 0 (n * k + k)" by (simp add: add.commute)
  with Suc show ?case by (simp only: mem_read_add) simp
qed simp

lemma mem_read_block:
  assumes "mem_read m off (length xs * k) = concat (map f xs)" and "\<And>x. length (f x) = k" and "i < length xs"
  shows "mem_read m (off + i * k) k = f (xs ! i)"
  using assms(1,3)
proof (induction xs arbitrary: off i)
  case (Cons x xs)
  then have "mem_read m off k @ mem_read m (off + k) (length xs * k) = f x @ concat (map f xs)" by (simp add: mem_read_add)
  then have "mem_read m off k = f x" "mem_read m (off + k) (length xs * k) = concat (map f xs)"
    using assms(2) by (auto simp: append_eq_append_conv)
  with Cons.IH [of "off + k"] Cons.prems(2) show ?case by (cases i) (simp_all add: add.assoc)
qed simp

lemma take_mem_read [simp]: "k \<le> n \<Longrightarrow> take k (mem_read m off n) = mem_read m off k"
  by (rule nth_equalityI) auto

lemma drop_mem_read [simp]: "k \<le> n \<Longrightarrow> drop k (mem_read m off n) = mem_read m (off + k) (n - k)"
  by (rule nth_equalityI) (auto simp: add.assoc)

section \<open>Machine words\<close>

lemma unat_bound: "unat (w :: 'a::len word) < 2 ^ LENGTH('a)"
  by (rule unsigned_less)

lemma unat_u8: "unat (w :: u8) < 256"
  and unat_u16: "unat (v :: u16) < 65536"
  and unat_u32: "unat (x :: u32) < 4294967296"
  and unat_u64: "unat (y :: u64) < 18446744073709551616"
  using unat_bound [of w] unat_bound [of v] unat_bound [of x] unat_bound [of y] by simp_all

lemma xor_left_cancel [simp]: "(a :: 'a::len word) XOR b = a XOR c \<longleftrightarrow> b = c"
proof
  assume "a XOR b = a XOR c"
  then have "a XOR (a XOR b) = a XOR (a XOR c)" by simp
  then show "b = c" by (simp flip: xor.assoc)
qed simp

lemma xor_right_cancel [simp]: "(b :: 'a::len word) XOR a = c XOR a \<longleftrightarrow> b = c"
  by (metis xor.commute xor_left_cancel)

section \<open>Little-endian encodings\<close>

definition le16 :: "u16 \<Rightarrow> u8 list" where
  "le16 w = [ucast w, ucast (drop_bit 8 w)]"

definition le32 :: "u32 \<Rightarrow> u8 list" where
  "le32 w = [ucast w, ucast (drop_bit 8 w), ucast (drop_bit 16 w), ucast (drop_bit 24 w)]"

definition un_le16 :: "u8 \<Rightarrow> u8 \<Rightarrow> u16" where
  "un_le16 a b = ucast a OR push_bit 8 (ucast b)"

definition un_le32 :: "u8 \<Rightarrow> u8 \<Rightarrow> u8 \<Rightarrow> u8 \<Rightarrow> u32" where
  "un_le32 a b c d =
     ucast a OR push_bit 8 (ucast b) OR push_bit 16 (ucast c) OR push_bit 24 (ucast d)"

lemma length_le16 [simp]: "length (le16 w) = 2"
  by (simp add: le16_def)

lemma length_le32 [simp]: "length (le32 w) = 4"
  by (simp add: le32_def)

lemma un_le16_le16 [simp]: "un_le16 (ucast w) (ucast (drop_bit 8 w)) = w"
  unfolding un_le16_def by (rule bit_word_eqI) (auto simp: bit_simps)

lemma un_le32_le32 [simp]:
  "un_le32 (ucast w) (ucast (drop_bit 8 w)) (ucast (drop_bit 16 w)) (ucast (drop_bit 24 w)) = w"
  unfolding un_le32_def
  by (rule bit_word_eqI) (auto simp: bit_simps not_less intro: ccontr dest: bit_imp_le_length)

lemma le16_un_le16 [simp]: "le16 (un_le16 a b) = [a, b]"
proof -
  have "ucast (un_le16 a b) = a"
    unfolding un_le16_def by (rule bit_word_eqI) (auto simp: bit_simps)
  moreover have "ucast (drop_bit 8 (un_le16 a b)) = b"
    unfolding un_le16_def by (rule bit_word_eqI) (auto simp: bit_simps dest: bit_imp_le_length)
  ultimately show ?thesis by (simp add: le16_def)
qed

lemma le32_un_le32 [simp]: "le32 (un_le32 a b c d) = [a, b, c, d]"
proof -
  have "ucast (un_le32 a b c d) = a"
    unfolding un_le32_def by (rule bit_word_eqI) (auto simp: bit_simps)
  moreover have "ucast (drop_bit 8 (un_le32 a b c d)) = b"
    unfolding un_le32_def by (rule bit_word_eqI) (auto simp: bit_simps dest: bit_imp_le_length)
  moreover have "ucast (drop_bit 16 (un_le32 a b c d)) = c"
    unfolding un_le32_def by (rule bit_word_eqI) (auto simp: bit_simps dest: bit_imp_le_length)
  moreover have "ucast (drop_bit 24 (un_le32 a b c d)) = d"
    unfolding un_le32_def by (rule bit_word_eqI) (auto simp: bit_simps dest: bit_imp_le_length)
  ultimately show ?thesis by (simp add: le32_def)
qed

lemma list_length_8E:
  assumes "length xs = 8"
  obtains a b c d e f g h where "xs = [a, b, c, d, e, f, g, h]"
  using assms by (auto simp: numeral_eq_Suc length_Suc_conv)

lemma list_length_12E:
  assumes "length xs = 12"
  obtains a b c d e f g h i j k l where "xs = [a, b, c, d, e, f, g, h, i, j, k, l]"
  using assms by (auto simp: numeral_eq_Suc length_Suc_conv)

end
