(* ===== verification/Protocol.thy ===== *)
theory Protocol
  imports Spid_Prelude
begin

text \<open>
  The wire protocol of \<^verbatim>\<open>spiproxy.h\<close>: limits, request types, status codes, the five
  structures, and their byte layout. Every member is naturally aligned, so no structure has
  padding; multi-byte members are little-endian (the layout \<^verbatim>\<open>fuzz/gen_seeds.py\<close> writes).
  The locale \<open>wire_format\<close> is the contract of a fixed-size layout, and is interpreted for
  each structure.
\<close>

section \<open>Limits\<close>

definition SPIPROXY_VER :: u8 where [const_defs]: "SPIPROXY_VER = 1"
definition SPIPROXY_BATCH_MAX :: nat where [const_defs]: "SPIPROXY_BATCH_MAX = 64"
definition SPIPROXY_MB_MAX :: nat where [const_defs]: "SPIPROXY_MB_MAX = 1018"
definition SPIPROXY_MSG_MAX :: nat where [const_defs]: "SPIPROXY_MSG_MAX = 4096"
definition SPIPROXY_RESP :: u8 where [const_defs]: "SPIPROXY_RESP = 0x80"
definition SPIPROXY_PRIO_NORMAL :: u16 where [const_defs]: "SPIPROXY_PRIO_NORMAL = 0"
definition SPIPROXY_PRIO_HIGH :: u16 where [const_defs]: "SPIPROXY_PRIO_HIGH = 1"
definition SPIPROXY_PRIO_LOW :: u16 where [const_defs]: "SPIPROXY_PRIO_LOW = 2"

section \<open>Enumerations\<close>

datatype spiproxy_type =
    SPIPROXY_READ | SPIPROXY_WRITE | SPIPROXY_BATCH | SPIPROXY_CLAIM | SPIPROXY_RELEASE
  | SPIPROXY_MAILBOX | SPIPROXY_STATS | SPIPROXY_TRACE | SPIPROXY_TSFIFO_SUB
  | SPIPROXY_BER_WINDOW | SPIPROXY_DFU | SPIPROXY_RESET

primrec type_code :: "spiproxy_type \<Rightarrow> u8" where
  "type_code SPIPROXY_READ = 1"
| "type_code SPIPROXY_WRITE = 2"
| "type_code SPIPROXY_BATCH = 3"
| "type_code SPIPROXY_CLAIM = 4"
| "type_code SPIPROXY_RELEASE = 5"
| "type_code SPIPROXY_MAILBOX = 6"
| "type_code SPIPROXY_STATS = 7"
| "type_code SPIPROXY_TRACE = 8"
| "type_code SPIPROXY_TSFIFO_SUB = 9"
| "type_code SPIPROXY_BER_WINDOW = 10"
| "type_code SPIPROXY_DFU = 11"
| "type_code SPIPROXY_RESET = 12"

text \<open>The enumerator a \<^verbatim>\<open>switch\<close> on a raw type byte selects, if any.\<close>

definition type_of_code :: "u8 \<Rightarrow> spiproxy_type option" where
  "type_of_code c =
     find (\<lambda>t. type_code t = c)
       [SPIPROXY_READ, SPIPROXY_WRITE, SPIPROXY_BATCH, SPIPROXY_CLAIM, SPIPROXY_RELEASE,
        SPIPROXY_MAILBOX, SPIPROXY_STATS, SPIPROXY_TRACE, SPIPROXY_TSFIFO_SUB,
        SPIPROXY_BER_WINDOW, SPIPROXY_DFU, SPIPROXY_RESET]"

datatype spiproxy_status =
    SPIPROXY_OK | SPIPROXY_EINVAL | SPIPROXY_EIO | SPIPROXY_EBUSY | SPIPROXY_ETIMEDOUT
  | SPIPROXY_ENOSYS | SPIPROXY_ECRC

primrec status_code :: "spiproxy_status \<Rightarrow> u16" where
  "status_code SPIPROXY_OK = 0"
| "status_code SPIPROXY_EINVAL = 1"
| "status_code SPIPROXY_EIO = 2"
| "status_code SPIPROXY_EBUSY = 3"
| "status_code SPIPROXY_ETIMEDOUT = 4"
| "status_code SPIPROXY_ENOSYS = 5"
| "status_code SPIPROXY_ECRC = 6"

lemma type_of_code_code [simp]: "type_of_code (type_code t) = Some t"
  by (cases t) (simp_all add: type_of_code_def)

lemma type_of_code_eq_iff: "type_of_code c = Some t \<longleftrightarrow> c = type_code t"
proof
  assume "type_of_code c = Some t"
  then show "c = type_code t"
    by (auto simp: type_of_code_def split: if_splits)
qed simp

lemma type_code_inject [simp]: "type_code t = type_code t' \<longleftrightarrow> t = t'"
  by (metis option.inject type_of_code_code)

lemma status_code_inject [simp]: "status_code a = status_code b \<longleftrightarrow> a = b"
  by (cases a; cases b) simp_all

section \<open>Structures\<close>

record spiproxy_hdr =
  h_ver :: u8
  h_type :: u8
  h_flags :: u16
  h_seq :: u32
  h_len :: u32

record spiproxy_op =
  o_slice :: u8
  o_write :: u8
  o_mmd :: u8
  o_rsvd :: u8
  o_reg :: u16
  o_rsvd2 :: u16
  o_val :: u32

record spiproxy_claim =
  cl_max_ms :: u32
  cl_ncleanup :: u16
  cl_rsvd :: u16

record spiproxy_mb =
  mb_slice :: u8
  mb_cmd :: u8
  mb_payload_len :: u16
  mb_timeout_ms :: u32

record spiproxy_reset =
  rs_assert_us :: u32
  rs_deassert_us :: u32

definition sizeof_hdr :: nat where [const_defs]: "sizeof_hdr = 12"
definition sizeof_op :: nat where [const_defs]: "sizeof_op = 12"
definition sizeof_claim :: nat where [const_defs]: "sizeof_claim = 8"
definition sizeof_mb :: nat where [const_defs]: "sizeof_mb = 8"
definition sizeof_reset :: nat where [const_defs]: "sizeof_reset = 8"

definition enc_hdr :: "spiproxy_hdr \<Rightarrow> u8 list" where
  "enc_hdr h = [h_ver h, h_type h] @ le16 (h_flags h) @ le32 (h_seq h) @ le32 (h_len h)"

definition dec_hdr :: "u8 list \<Rightarrow> spiproxy_hdr" where
  "dec_hdr b =
     \<lparr>h_ver = b ! 0, h_type = b ! 1, h_flags = un_le16 (b ! 2) (b ! 3),
      h_seq = un_le32 (b ! 4) (b ! 5) (b ! 6) (b ! 7),
      h_len = un_le32 (b ! 8) (b ! 9) (b ! 10) (b ! 11)\<rparr>"

definition enc_op :: "spiproxy_op \<Rightarrow> u8 list" where
  "enc_op p =
     [o_slice p, o_write p, o_mmd p, o_rsvd p] @ le16 (o_reg p) @ le16 (o_rsvd2 p) @ le32 (o_val p)"

definition dec_op :: "u8 list \<Rightarrow> spiproxy_op" where
  "dec_op b =
     \<lparr>o_slice = b ! 0, o_write = b ! 1, o_mmd = b ! 2, o_rsvd = b ! 3,
      o_reg = un_le16 (b ! 4) (b ! 5), o_rsvd2 = un_le16 (b ! 6) (b ! 7),
      o_val = un_le32 (b ! 8) (b ! 9) (b ! 10) (b ! 11)\<rparr>"

definition enc_claim :: "spiproxy_claim \<Rightarrow> u8 list" where
  "enc_claim c = le32 (cl_max_ms c) @ le16 (cl_ncleanup c) @ le16 (cl_rsvd c)"

definition dec_claim :: "u8 list \<Rightarrow> spiproxy_claim" where
  "dec_claim b =
     \<lparr>cl_max_ms = un_le32 (b ! 0) (b ! 1) (b ! 2) (b ! 3),
      cl_ncleanup = un_le16 (b ! 4) (b ! 5), cl_rsvd = un_le16 (b ! 6) (b ! 7)\<rparr>"

definition enc_mb :: "spiproxy_mb \<Rightarrow> u8 list" where
  "enc_mb m = [mb_slice m, mb_cmd m] @ le16 (mb_payload_len m) @ le32 (mb_timeout_ms m)"

definition dec_mb :: "u8 list \<Rightarrow> spiproxy_mb" where
  "dec_mb b =
     \<lparr>mb_slice = b ! 0, mb_cmd = b ! 1, mb_payload_len = un_le16 (b ! 2) (b ! 3),
      mb_timeout_ms = un_le32 (b ! 4) (b ! 5) (b ! 6) (b ! 7)\<rparr>"

definition enc_reset :: "spiproxy_reset \<Rightarrow> u8 list" where
  "enc_reset r = le32 (rs_assert_us r) @ le32 (rs_deassert_us r)"

definition dec_reset :: "u8 list \<Rightarrow> spiproxy_reset" where
  "dec_reset b =
     \<lparr>rs_assert_us = un_le32 (b ! 0) (b ! 1) (b ! 2) (b ! 3),
      rs_deassert_us = un_le32 (b ! 4) (b ! 5) (b ! 6) (b ! 7)\<rparr>"

section \<open>The contract of a layout\<close>

locale wire_format =
  fixes enc :: "'a \<Rightarrow> u8 list"
    and dec :: "u8 list \<Rightarrow> 'a"
    and sz :: nat
  assumes length_enc [simp]: "length (enc x) = sz"
    and dec_enc [simp]: "dec (enc x) = x"
    and enc_dec: "length b = sz \<Longrightarrow> enc (dec b) = b"
begin

lemma enc_inject: "enc x = enc y \<longleftrightarrow> x = y"
  by (metis dec_enc)

lemma range_enc: "range enc = {b. length b = sz}"
proof (intro equalityI subsetI)
  fix b :: "u8 list" assume "b \<in> {b. length b = sz}"
  then have "b = enc (dec b)" by (simp add: enc_dec)
  then show "b \<in> range enc" by (rule range_eqI)
qed auto

lemma fetch_store: "dec (mem_read (mem_write off (enc x) m) off sz) = x"
  by simp

lemma store_fetch: "mem_write off (enc (dec (mem_read m off sz))) m = m"
  by (simp add: enc_dec)

lemma fetch_store_disjoint:
  "i \<noteq> j \<Longrightarrow> mem_read (mem_write (i * sz) (enc x) m) (j * sz) sz = mem_read m (j * sz) sz"
proof (rule mem_read_write_disjoint)
  assume "i \<noteq> j"
  then have "Suc j \<le> i \<or> Suc i \<le> j" by linarith
  then have "Suc j * sz \<le> i * sz \<or> Suc i * sz \<le> j * sz"
    by (auto simp del: mult_Suc intro: mult_le_mono1)
  then show "j * sz + sz \<le> i * sz \<or> i * sz + length (enc x) \<le> j * sz"
    by (simp add: add.commute)
qed

lemma mem_read_array:
  "mem_read m off (n * sz) =
     concat (map (\<lambda>i. enc (dec (mem_read m (off + i * sz) sz))) [0..<n])"
  by (induction n) (simp_all add: mem_read_add add.commute [of sz] enc_dec)

lemma mem_read_array_cong:
  assumes "\<And>i. i < n \<Longrightarrow> dec (mem_read m (off + i * sz) sz) = dec (mem_read m' (off + i * sz) sz)"
  shows "mem_read m off (n * sz) = mem_read m' off (n * sz)"
  unfolding mem_read_array using assms by (intro arg_cong [where f = concat]) auto

end

interpretation hdr: wire_format enc_hdr dec_hdr sizeof_hdr
proof unfold_locales
  fix b :: "u8 list" assume "length b = sizeof_hdr"
  then show "enc_hdr (dec_hdr b) = b"
    by (auto simp: const_defs enc_hdr_def dec_hdr_def elim!: list_length_12E)
qed (simp_all add: const_defs enc_hdr_def dec_hdr_def le16_def le32_def)

interpretation opf: wire_format enc_op dec_op sizeof_op
proof unfold_locales
  fix b :: "u8 list" assume "length b = sizeof_op"
  then show "enc_op (dec_op b) = b"
    by (auto simp: const_defs enc_op_def dec_op_def elim!: list_length_12E)
qed (simp_all add: const_defs enc_op_def dec_op_def le16_def le32_def)

interpretation clm: wire_format enc_claim dec_claim sizeof_claim
proof unfold_locales
  fix b :: "u8 list" assume "length b = sizeof_claim"
  then show "enc_claim (dec_claim b) = b"
    by (auto simp: const_defs enc_claim_def dec_claim_def elim!: list_length_8E)
qed (simp_all add: const_defs enc_claim_def dec_claim_def le16_def le32_def)

interpretation mbf: wire_format enc_mb dec_mb sizeof_mb
proof unfold_locales
  fix b :: "u8 list" assume "length b = sizeof_mb"
  then show "enc_mb (dec_mb b) = b"
    by (auto simp: const_defs enc_mb_def dec_mb_def elim!: list_length_8E)
qed (simp_all add: const_defs enc_mb_def dec_mb_def le16_def le32_def)

interpretation rst: wire_format enc_reset dec_reset sizeof_reset
proof unfold_locales
  fix b :: "u8 list" assume "length b = sizeof_reset"
  then show "enc_reset (dec_reset b) = b"
    by (auto simp: const_defs enc_reset_def dec_reset_def elim!: list_length_8E)
qed (simp_all add: const_defs enc_reset_def dec_reset_def le16_def le32_def)

section \<open>The structures on the wire\<close>


end
