(* ===== verification/C_Printf.thy ===== *)
theory C_Printf
  imports Spid_Prelude
begin

text \<open>
  The part of \<^verbatim>\<open>printf\<close> formatting that the sources use: \<^verbatim>\<open>%u\<close>, \<^verbatim>\<open>%d\<close>, \<^verbatim>\<open>%llu\<close>,
  \<^verbatim>\<open>%x\<close> with zero padding, \<^verbatim>\<open>%s\<close> and \<^verbatim>\<open>%c\<close>, and the truncation rule of
  \<^verbatim>\<open>snprintf\<close>. A C string is a \<^typ>\<open>string\<close> without its terminating NUL.
\<close>

definition digit_char :: "nat \<Rightarrow> char" where
  "digit_char d = (if d < 10 then char_of (48 + d) else char_of (87 + d))"

definition digit_char_upper :: "nat \<Rightarrow> char" where
  "digit_char_upper d = (if d < 10 then char_of (48 + d) else char_of (55 + d))"

fun show_dec :: "nat \<Rightarrow> string" where
  "show_dec n = (if n < 10 then [digit_char n] else show_dec (n div 10) @ [digit_char (n mod 10)])"

fun show_hex :: "nat \<Rightarrow> string" where
  "show_hex n = (if n < 16 then [digit_char n] else show_hex (n div 16) @ [digit_char (n mod 16)])"

fun show_HEX :: "nat \<Rightarrow> string" where
  "show_HEX n =
     (if n < 16 then [digit_char_upper n] else show_HEX (n div 16) @ [digit_char_upper (n mod 16)])"

declare show_dec.simps [simp del] show_hex.simps [simp del] show_HEX.simps [simp del]

definition show_int :: "int \<Rightarrow> string" where
  "show_int i = (if i < 0 then CHR ''-'' # show_dec (nat (- i)) else show_dec (nat i))"

definition zpad :: "nat \<Rightarrow> string \<Rightarrow> string" where
  "zpad k s = replicate (k - length s) (CHR ''0'') @ s"

text \<open>
  \<open>snprintf sz t\<close> is the C string left in a buffer of \<open>sz\<close> bytes by printing \<open>t\<close>; the
  call returns \<open>length t\<close>.
\<close>

definition snprintf :: "nat \<Rightarrow> string \<Rightarrow> string" where
  "snprintf sz t = take (sz - 1) t"

definition bytes_of_string :: "string \<Rightarrow> u8 list" where
  "bytes_of_string s = map of_char s"

lemma length_bytes_of_string [simp]: "length (bytes_of_string s) = length s"
  by (simp add: bytes_of_string_def)

lemma length_snprintf_le: "length (snprintf sz t) \<le> sz - 1"
  by (simp add: snprintf_def)

lemma snprintf_fits: "length t < sz \<Longrightarrow> snprintf sz t = t"
  by (simp add: snprintf_def)

section \<open>Width of a printed number\<close>

lemma length_show_dec_le: "n < 10 ^ k \<Longrightarrow> 0 < k \<Longrightarrow> length (show_dec n) \<le> k"
proof (induction k arbitrary: n)
  case (Suc k)
  show ?case
  proof (cases "n < 10")
    case True
    then show ?thesis by (simp add: show_dec.simps)
  next
    case False
    with Suc.prems have "n div 10 < 10 ^ k" and "0 < k"
      by (auto simp: less_mult_imp_div_less mult.commute intro: ccontr)
    with False Suc.IH [of "n div 10"] show ?thesis
      by (simp add: show_dec.simps [of n])
  qed
qed simp

lemma length_show_hex_le: "n < 16 ^ k \<Longrightarrow> 0 < k \<Longrightarrow> length (show_hex n) \<le> k"
proof (induction k arbitrary: n)
  case (Suc k)
  show ?case
  proof (cases "n < 16")
    case True
    then show ?thesis by (simp add: show_hex.simps)
  next
    case False
    with Suc.prems have "n div 16 < 16 ^ k" and "0 < k"
      by (auto simp: less_mult_imp_div_less mult.commute intro: ccontr)
    with False Suc.IH [of "n div 16"] show ?thesis
      by (simp add: show_hex.simps [of n])
  qed
qed simp

lemma length_show_HEX: "length (show_HEX n) = length (show_hex n)"
  by (induction n rule: show_hex.induct) (simp add: show_hex.simps show_HEX.simps)

lemma length_zpad: "length (zpad k s) = max k (length s)"
  by (simp add: zpad_def)

lemma length_show_dec_u8: "length (show_dec (unat (w :: u8))) \<le> 3"
  using unat_bound [of w] by (intro length_show_dec_le) simp_all

lemma length_show_dec_u16: "length (show_dec (unat (w :: u16))) \<le> 5"
  using unat_bound [of w] by (intro length_show_dec_le) simp_all

lemma length_show_dec_u32: "length (show_dec (unat (w :: u32))) \<le> 10"
  using unat_bound [of w] by (intro length_show_dec_le) simp_all

lemma length_show_dec_u64: "length (show_dec (unat (w :: u64))) \<le> 20"
  using unat_bound [of w] by (intro length_show_dec_le) simp_all

lemma length_show_int32:
  assumes "- (2 ^ 31) \<le> i" and "i < 2 ^ 31"
  shows "length (show_int i) \<le> 11"
proof (cases "i < 0")
  case True
  with assms have "length (show_dec (nat (- i))) \<le> 10"
    by (intro length_show_dec_le) simp_all
  with True show ?thesis by (simp add: show_int_def)
next
  case False
  with assms have "length (show_dec (nat i)) \<le> 10"
    by (intro length_show_dec_le) simp_all
  with False show ?thesis by (simp add: show_int_def)
qed

lemma length_hex_u8: "length (zpad 2 (show_hex (unat (w :: u8)))) = 2"
proof -
  have "length (show_hex (unat w)) \<le> 2"
    using unat_bound [of w] by (intro length_show_hex_le) simp_all
  then show ?thesis by (simp add: length_zpad)
qed

lemma length_hex_u16: "length (zpad 4 (show_hex (unat (w :: u16)))) = 4"
proof -
  have "length (show_hex (unat w)) \<le> 4"
    using unat_bound [of w] by (intro length_show_hex_le) simp_all
  then show ?thesis by (simp add: length_zpad)
qed

lemma length_hex_u32: "length (zpad 8 (show_hex (unat (w :: u32)))) = 8"
proof -
  have "length (show_hex (unat w)) \<le> 8"
    using unat_bound [of w] by (intro length_show_hex_le) simp_all
  then show ?thesis by (simp add: length_zpad)
qed

lemmas printf_lengths =
  length_show_dec_u8 length_show_dec_u16 length_show_dec_u32 length_show_dec_u64
  length_hex_u8 length_hex_u16 length_hex_u32

end
