(* ===== verification/Daemon_State.thy ===== *)
theory Daemon_State
  imports Protocol C_Printf
begin

text \<open>
  The state of the daemon (\<^verbatim>\<open>lan80xx_spid.c\<close>): its constants, its structures, the global
  \<^verbatim>\<open>g\<close>, and what it takes from outside the repository.

  Pointers into the static arrays are indices: a \<^verbatim>\<open>client_t *\<close> is an index into \<open>cl\<close>, a
  \<^verbatim>\<open>qitem_t *\<close> an index into \<open>pool\<close>, and \<^verbatim>\<open>NULL\<close> is \<^term>\<open>None\<close>. Arrays are functions on
  their index range. The kernel and libc are the parameter \<open>'w kernel\<close> over an arbitrary
  world \<open>'w\<close>, the generated \<^verbatim>\<open>lan80xx_regs.h\<close> is the parameter \<open>lan80xx_regs\<close>, and the
  functions that \<^verbatim>\<open>SPIPROXY_FUZZ\<close> selects at compile time are the parameter \<open>'w build\<close>.
  The three fields \<open>trace_out\<close>, \<open>syslog\<close> and \<open>sent\<close> record what the process has written to
  the \<^verbatim>\<open>-L\<close> sink, to syslog and to its client sockets.
\<close>

section \<open>Constants\<close>

definition MAX_CLIENTS :: nat where [const_defs]: "MAX_CLIENTS = 16"
definition MAX_QITEMS :: nat where [const_defs]: "MAX_QITEMS = 256"
definition TRACE_RING :: nat where [const_defs]: "TRACE_RING = 1024"
definition RD_RING_COUNT :: nat where [const_defs]: "RD_RING_COUNT = 16"
definition TRACE_TAIL_MAX :: nat where [const_defs]: "TRACE_TAIL_MAX = 64"
definition TRACE_LINE_MAX :: nat where [const_defs]: "TRACE_LINE_MAX = 64"
definition SLICE_COUNT :: nat where [const_defs]: "SLICE_COUNT = 4"
definition SIDE_COUNT :: nat where [const_defs]: "SIDE_COUNT = 2"
definition SPI_BYTES :: nat where [const_defs]: "SPI_BYTES = 7"
definition SPI_PAD_MAX :: nat where [const_defs]: "SPI_PAD_MAX = 15"
definition SPI_BUF_MAX :: nat where [const_defs]: "SPI_BUF_MAX = SPI_BYTES + SPI_PAD_MAX"
definition RST_ASSERT_US :: u32 where [const_defs]: "RST_ASSERT_US = 10000"
definition RST_DEASSERT_US :: u32 where [const_defs]: "RST_DEASSERT_US = 100000"
definition MB_CMD_ADDR :: nat where [const_defs]: "MB_CMD_ADDR = 0xd800"
definition MB_RESP_ADDR :: nat where [const_defs]: "MB_RESP_ADDR = 0xd900"
definition MB_FLAG :: u16 where [const_defs]: "MB_FLAG = 0xda00"
definition MB_MCU_MASK :: u16 where [const_defs]: "MB_MCU_MASK = 0xda01"
definition MB_GUARD_LO :: u16 where [const_defs]: "MB_GUARD_LO = 0xd800"
definition MB_GUARD_HI :: u16 where [const_defs]: "MB_GUARD_HI = 0xdaff"
definition MB_F_BUSY :: u32 where [const_defs]: "MB_F_BUSY = 0x00000001"
definition MB_F_RESP :: u32 where [const_defs]: "MB_F_RESP = 0x00000002"
definition MB_SET_REQ :: u32 where [const_defs]: "MB_SET_REQ = 0x00010000"
definition MB_CLR_REQ :: u32 where [const_defs]: "MB_CLR_REQ = 0x01000000"
definition MB_CLR_RESP :: u32 where [const_defs]: "MB_CLR_RESP = 0x02000000"
definition MB_HDR_LEN :: nat where [const_defs]: "MB_HDR_LEN = 4"
definition MB_CRC_LEN :: nat where [const_defs]: "MB_CRC_LEN = 2"
definition MB_TIMEOUT_MS :: u32 where [const_defs]: "MB_TIMEOUT_MS = 500"
definition COMM_PATH_MAX :: nat where [const_defs]: "COMM_PATH_MAX = 20"
definition REG_NAME_BUF :: nat where [const_defs]: "REG_NAME_BUF = 32"

text \<open>MMD numbers: fixed by the generator's \<^verbatim>\<open>MMD_INFO\<close> table.\<close>

definition MMD_LINE_PMA :: u8 where [const_defs]: "MMD_LINE_PMA = 0x01"
definition MMD_MAC_LINE_PCS :: u8 where [const_defs]: "MMD_MAC_LINE_PCS = 0x03"
definition MMD_LINE_KR :: u8 where [const_defs]: "MMD_LINE_KR = 0x07"
definition MMD_HOST_PMA :: u8 where [const_defs]: "MMD_HOST_PMA = 0x09"
definition MMD_HOST_PCS :: u8 where [const_defs]: "MMD_HOST_PCS = 0x0B"
definition MMD_GLOBAL :: u8 where [const_defs]: "MMD_GLOBAL = 0x1E"

text \<open>Register offsets that only the generated header knows.\<close>

record lan80xx_regs =
  DEVICE_ID_REG :: u16
  SILICON_REVISION_REG :: u16
  FEATURE_DISABLE_REG :: u16
  HOST_PCS25G_STATUS1 :: u16
  HOST_PCS25G_BASER_STATUS1 :: u16
  HOST_PCS25G_BASER_STATUS2 :: u16
  LINE_PCS25G_STATUS1 :: u16

section \<open>Structures\<close>

record client =
  c_fd :: int
  c_used :: bool
  c_id :: u32
  c_pid :: int
  c_comm :: string
  c_n_ops :: u64
  c_n_msgs :: u64
  c_n_err :: u64

record qitem =
  q_next :: "nat option"
  q_c :: nat
  q_hdr :: spiproxy_hdr
  q_body :: mem

record trace_ent =
  te_ts :: u64
  te_cid :: u32
  te_slice :: u8
  te_write :: u8
  te_mmd :: u8
  te_reg :: u16
  te_val :: u32

record page_ent =
  pg_cid :: u32
  pg_comm :: string

record cor_ent =
  co_cid :: u32
  co_comm :: string
  co_ts :: u64

record rd_ent =
  rd_slice :: u8
  rd_mmd :: u8
  rd_reg :: u16
  rd_cid :: u32
  rd_comm :: string
  rd_ts :: u64

datatype priority = LOG_ERR | LOG_WARNING | LOG_NOTICE | PRI_TRACE

record 'w daemon =
  dev :: string
  sock :: string
  pad :: nat
  freq :: int
  rst_line :: "string option"
  rst_fd :: int
  cl :: "nat \<Rightarrow> client"
  next_cid :: u32
  qh :: "nat \<Rightarrow> nat option"
  qt :: "nat \<Rightarrow> nat option"
  pool :: "nat \<Rightarrow> qitem"
  freel :: "nat option"
  n_queued :: int
  claim_owner :: "nat option"
  claim_deadline :: u64
  claim_cleanup :: "nat \<Rightarrow> spiproxy_op"
  claim_ncleanup :: nat
  mb_inflight :: bool
  ring :: "nat \<Rightarrow> trace_ent"
  ring_w :: u32
  n_reads :: u64
  n_writes :: u64
  n_io_err :: u64
  log_sink :: bool
  lctx_cid :: u32
  lctx_comm :: string
  lctx_seq :: u32
  lctx_tag :: string
  page_owner :: "nat \<Rightarrow> nat \<Rightarrow> page_ent"
  cor_last :: "nat \<Rightarrow> cor_ent"
  rd_ring :: "nat \<Rightarrow> rd_ent"
  rd_w :: u32
  n_warns :: u64
  stop :: bool
  trace_out :: "string list"
  syslog :: "(priority \<times> string) list"
  sent :: "(int \<times> u8 list) list"
  world :: 'w

section \<open>The outside\<close>

text \<open>
  \<open>k_clock\<close> is \<^verbatim>\<open>clock_gettime(CLOCK_MONOTONIC)\<close> (seconds and nanoseconds), \<open>k_send\<close> is
  \<^verbatim>\<open>send\<close> on a client socket, \<open>k_spi\<close> is one \<^verbatim>\<open>ioctl(SPI_IOC_MESSAGE(1))\<close> (transmitted
  bytes and clock rate to return code and received bytes), \<open>k_gpio\<close> is the line-value ioctl.
  \<open>k_stack_pkt\<close> and \<open>k_stack_v\<close> are what the stack happens to hold in the uninitialised locals
  \<^verbatim>\<open>pkt\<close> and \<^verbatim>\<open>v\<close> of \<^verbatim>\<open>exec_mailbox\<close>.
\<close>

record 'w kernel =
  k_clock :: "'w \<Rightarrow> (u64 \<times> u64) \<times> 'w"
  k_usleep :: "u32 \<Rightarrow> 'w \<Rightarrow> 'w"
  k_send :: "int \<Rightarrow> u8 list \<Rightarrow> 'w \<Rightarrow> int \<times> 'w"
  k_spi :: "u8 list \<Rightarrow> int \<Rightarrow> 'w \<Rightarrow> (int \<times> mem) \<times> 'w"
  k_gpio :: "int \<Rightarrow> bool \<Rightarrow> 'w \<Rightarrow> int \<times> 'w"
  k_stack_pkt :: "'w \<Rightarrow> mem"
  k_stack_v :: "'w \<Rightarrow> u32"

text \<open>
  The build: register access returns \<^verbatim>\<open>-1\<close> as \<^term>\<open>None\<close> (reads) or \<^term>\<open>False\<close> (writes).
\<close>

record 'w build =
  b_kernel :: "'w kernel"
  b_regs :: lan80xx_regs
  b_write_reg :: "u8 \<Rightarrow> u8 \<Rightarrow> u16 \<Rightarrow> u32 \<Rightarrow> 'w daemon \<Rightarrow> bool \<times> 'w daemon"
  b_read_reg :: "u8 \<Rightarrow> u8 \<Rightarrow> u16 \<Rightarrow> 'w daemon \<Rightarrow> u32 option \<times> 'w daemon"
  b_pulse_reset :: "u32 \<Rightarrow> u32 \<Rightarrow> 'w daemon \<Rightarrow> 'w daemon"
  b_poll_delay :: u32

definition now_us :: "'w kernel \<Rightarrow> 'w daemon \<Rightarrow> u64 \<times> 'w daemon" where
  "now_us K s =
     (let ((sec, nsec), w) = k_clock K (world s)
      in (sec * 1000000 + nsec div 1000, s\<lparr>world := w\<rparr>))"

abbreviation pu :: "'a::len word \<Rightarrow> string" where
  "pu w \<equiv> show_dec (unat w)"

abbreviation px2 :: "u8 \<Rightarrow> string" where
  "px2 w \<equiv> zpad 2 (show_hex (unat w))"

abbreviation px4 :: "u16 \<Rightarrow> string" where
  "px4 w \<equiv> zpad 4 (show_hex (unat w))"

abbreviation px8 :: "u32 \<Rightarrow> string" where
  "px8 w \<equiv> zpad 8 (show_hex (unat w))"

section \<open>Frames\<close>

text \<open>
  Groups of fields, so that a statement can say what an operation leaves alone: the
  scheduler's lists, the claim, the start-up configuration, and the client slots (without
  their statistics).
\<close>

definition sched_of :: "'w daemon \<Rightarrow> (nat \<Rightarrow> nat option) \<times> (nat \<Rightarrow> nat option) \<times>
    (nat \<Rightarrow> qitem) \<times> nat option \<times> int" where
  "sched_of s = (qh s, qt s, pool s, freel s, n_queued s)"

definition claim_of :: "'w daemon \<Rightarrow> nat option \<times> u64 \<times> (nat \<Rightarrow> spiproxy_op) \<times> nat" where
  "claim_of s = (claim_owner s, claim_deadline s, claim_cleanup s, claim_ncleanup s)"

definition conf_of :: "'w daemon \<Rightarrow> string \<times> string \<times> nat \<times> int \<times> string option \<times> int \<times> bool" where
  "conf_of s = (dev s, sock s, pad s, freq s, rst_line s, rst_fd s, log_sink s)"

definition slot_of :: "client \<Rightarrow> int \<times> bool \<times> u32 \<times> int \<times> string" where
  "slot_of c = (c_fd c, c_used c, c_id c, c_pid c, c_comm c)"

definition slots_of :: "'w daemon \<Rightarrow> (nat \<Rightarrow> int \<times> bool \<times> u32 \<times> int \<times> string) \<times> u32" where
  "slots_of s = (slot_of \<circ> cl s, next_cid s)"

lemmas group_defs = sched_of_def claim_of_def conf_of_def slot_of_def slots_of_def

text \<open>
  \<open>io_frame s s'\<close>: only the outside world, the bus counters, the op log, the lint state and
  the logs differ. Everything below the scheduler works inside this frame.
\<close>

definition io_frame :: "'w daemon \<Rightarrow> 'w daemon \<Rightarrow> bool" where
  "io_frame s s' \<longleftrightarrow>
     s' = s\<lparr>world := world s', n_reads := n_reads s', n_writes := n_writes s',
             n_io_err := n_io_err s', ring := ring s', ring_w := ring_w s',
             page_owner := page_owner s', cor_last := cor_last s', rd_ring := rd_ring s',
             rd_w := rd_w s', n_warns := n_warns s', trace_out := trace_out s',
             syslog := syslog s'\<rparr>"

lemma io_frame_refl [simp, intro]: "io_frame s s"
  by (simp add: io_frame_def)

lemma io_frame_iff:
  "io_frame s s' \<longleftrightarrow>
     dev s' = dev s \<and> sock s' = sock s \<and> pad s' = pad s \<and> freq s' = freq s \<and>
     rst_line s' = rst_line s \<and> rst_fd s' = rst_fd s \<and> cl s' = cl s \<and>
     next_cid s' = next_cid s \<and> qh s' = qh s \<and> qt s' = qt s \<and> pool s' = pool s \<and>
     freel s' = freel s \<and> n_queued s' = n_queued s \<and> claim_owner s' = claim_owner s \<and>
     claim_deadline s' = claim_deadline s \<and> claim_cleanup s' = claim_cleanup s \<and>
     claim_ncleanup s' = claim_ncleanup s \<and> mb_inflight s' = mb_inflight s \<and>
     log_sink s' = log_sink s \<and> lctx_cid s' = lctx_cid s \<and> lctx_comm s' = lctx_comm s \<and>
     lctx_seq s' = lctx_seq s \<and> lctx_tag s' = lctx_tag s \<and> stop s' = stop s \<and>
     sent s' = sent s"
  by (cases s; cases s') (auto simp: io_frame_def)

lemmas io_frameD = io_frame_iff [THEN iffD1]

lemma io_frame_trans [trans]: "io_frame s s' \<Longrightarrow> io_frame s' s'' \<Longrightarrow> io_frame s s''"
  by (auto simp: io_frame_iff)

lemma io_frame_groups:
  "io_frame s s' \<Longrightarrow> sched_of s' = sched_of s \<and> claim_of s' = claim_of s \<and>
     conf_of s' = conf_of s \<and> slots_of s' = slots_of s"
  by (auto simp: io_frame_iff group_defs)

lemma io_frame_now_us: "now_us K s = (t, s') \<Longrightarrow> io_frame s s'"
  by (auto simp: now_us_def io_frame_iff split: prod.splits)

end
