(* ===== verification/Log.thy ===== *)
theory Log
  imports Daemon_State
begin

text \<open>
  The logging module (\<^verbatim>\<open>log.c\<close>, \<^verbatim>\<open>log.h\<close>) and the naming helpers of the daemon that feed
  it. Operational messages go to syslog and are teed into the \<^verbatim>\<open>-L\<close> sink; \<^verbatim>\<open>log_debug\<close>
  writes to the sink only and is a no-op without one.
\<close>

section \<open>log.c\<close>

primrec pri_tag :: "priority \<Rightarrow> string" where
  "pri_tag LOG_ERR = ''ERR ''"
| "pri_tag LOG_WARNING = ''WARN ''"
| "pri_tag LOG_NOTICE = ''NOTE ''"
| "pri_tag PRI_TRACE = ''''"

definition trace_v :: "'w kernel \<Rightarrow> priority \<Rightarrow> string \<Rightarrow> 'w daemon \<Rightarrow> 'w daemon" where
  "trace_v K p text s =
     (if \<not> log_sink s then s
      else let (t, s) = now_us K s
           in s\<lparr>trace_out := trace_out s @ [pu t @ '' '' @ pri_tag p @ text]\<rparr>)"

definition log_msg :: "'w kernel \<Rightarrow> priority \<Rightarrow> string \<Rightarrow> 'w daemon \<Rightarrow> 'w daemon" where
  "log_msg K p text s = trace_v K p text (s\<lparr>syslog := syslog s @ [(p, text)]\<rparr>)"

definition log_trace :: "'w kernel \<Rightarrow> string \<Rightarrow> 'w daemon \<Rightarrow> 'w daemon" where
  "log_trace K text s = trace_v K PRI_TRACE text s"

abbreviation log_always :: "'w kernel \<Rightarrow> string \<Rightarrow> 'w daemon \<Rightarrow> 'w daemon" where
  "log_always K \<equiv> log_msg K LOG_NOTICE"

abbreviation log_error :: "'w kernel \<Rightarrow> string \<Rightarrow> 'w daemon \<Rightarrow> 'w daemon" where
  "log_error K \<equiv> log_msg K LOG_ERR"

abbreviation log_warn :: "'w kernel \<Rightarrow> string \<Rightarrow> 'w daemon \<Rightarrow> 'w daemon" where
  "log_warn K \<equiv> log_msg K LOG_WARNING"

abbreviation log_debug :: "'w kernel \<Rightarrow> string \<Rightarrow> 'w daemon \<Rightarrow> 'w daemon" where
  "log_debug K \<equiv> log_trace K"

section \<open>Helpers of the daemon\<close>

definition warn_line :: "'w kernel \<Rightarrow> string \<Rightarrow> 'w daemon \<Rightarrow> 'w daemon" where
  "warn_line K text s =
     log_warn K (snprintf 256 text) (s\<lparr>n_warns := n_warns s + 1\<rparr>)"

definition type_name :: "u8 \<Rightarrow> string" where
  "type_name t =
     (let n = [''?'', ''READ'', ''WRITE'', ''BATCH'', ''CLAIM'', ''RELEASE'', ''MAILBOX'',
               ''STATS'', ''TRACE'', ''TSFIFO_SUB'', ''BER_WINDOW'', ''DFU'']
      in if unat t < length n then n ! unat t else ''?'')"

definition status_name :: "spiproxy_status \<Rightarrow> string" where
  "status_name st =
     [''OK'', ''EINVAL'', ''EIO'', ''EBUSY'', ''ETIMEDOUT'', ''ENOSYS'', ''ECRC'']
       ! unat (status_code st)"

definition reg_name :: "lan80xx_regs \<Rightarrow> u8 \<Rightarrow> u16 \<Rightarrow> u32 \<Rightarrow> bool \<Rightarrow> string" where
  "reg_name R mmd reg val wr =
     (if mmd = MMD_GLOBAL then
        (if reg = DEVICE_ID_REG R then '' DEVICE_ID''
         else if reg = SILICON_REVISION_REG R then '' SILICON_REV''
         else if reg = FEATURE_DISABLE_REG R then '' FEATURE_FUSES''
         else if reg = MB_MCU_MASK then '' MB_MCU_INT_MASK''
         else if reg = MB_MCU_MASK + 1 then '' MB_HOST_INT_MASK''
         else if reg = MB_FLAG then
           (if wr \<and> val = MB_SET_REQ then '' MB_FLAG doorbell''
            else if wr \<and> val = MB_CLR_REQ then '' MB_FLAG clr-req''
            else if wr \<and> val = MB_CLR_RESP then '' MB_FLAG clr-resp''
            else '' MB_FLAG'')
         else if MB_CMD_ADDR \<le> unat reg \<and> unat reg \<le> MB_CMD_ADDR + 0xff then
           snprintf REG_NAME_BUF ('' MB_REQ['' @ show_dec (unat reg - MB_CMD_ADDR) @ '']'')
         else if MB_RESP_ADDR \<le> unat reg \<and> unat reg \<le> MB_RESP_ADDR + 0xff then
           snprintf REG_NAME_BUF ('' MB_RESP['' @ show_dec (unat reg - MB_RESP_ADDR) @ '']'')
         else '' GLOBAL'')
      else if mmd = MMD_HOST_PMA \<or> mmd = MMD_LINE_PMA then
        (let side = (if mmd = MMD_HOST_PMA then ''HOST'' else ''LINE'')
         in snprintf REG_NAME_BUF
              (if reg = 0xf0ff then '' '' @ side @ ''_PMA8_CMU_FF(page)''
               else if reg AND 0xff00 = 0xf000 then
                 '' '' @ side @ ''_PMA8_CMU_'' @ zpad 2 (show_HEX (unat (reg AND 0xff)))
               else if reg AND 0xff00 = 0xf100 then
                 '' '' @ side @ ''_PMA8_LANE_'' @ zpad 2 (show_HEX (unat (reg AND 0xff)))
               else if reg = 0x0001 then '' '' @ side @ ''_PMA_STATUS1''
               else '' '' @ side @ ''_PMA''))
      else if mmd = MMD_HOST_PCS then
        (if reg = HOST_PCS25G_STATUS1 R then '' HOST_PCS_STATUS1''
         else if reg = HOST_PCS25G_BASER_STATUS1 R then '' HOST_BASER_STATUS1''
         else if reg = HOST_PCS25G_BASER_STATUS2 R then '' HOST_BASER_STATUS2(CoR)''
         else '' HOST_PCS25G'')
      else if mmd = MMD_MAC_LINE_PCS then
        (if reg = LINE_PCS25G_STATUS1 R then '' LINE_PCS_STATUS1'' else '' LINE_PCS'')
      else if mmd = MMD_LINE_KR then '' AN''
      else '''')"

section \<open>What logging changes\<close>

lemma trace_v_io [simp, intro]: "io_frame s (trace_v K p t s)"
  by (auto simp: trace_v_def now_us_def io_frame_iff split: prod.splits)

lemma log_trace_io [simp, intro]: "io_frame s (log_trace K t s)"
  by (simp add: log_trace_def)

lemma log_msg_io [simp, intro]: "io_frame s (log_msg K p t s)"
proof -
  have "io_frame s (s\<lparr>syslog := syslog s @ [(p, t)]\<rparr>)"
    by (simp add: io_frame_iff)
  then show ?thesis
    unfolding log_msg_def by (rule io_frame_trans) simp
qed

lemma warn_line_io [simp, intro]: "io_frame s (warn_line K t s)"
proof -
  have "io_frame s (s\<lparr>n_warns := n_warns s + 1\<rparr>)"
    by (simp add: io_frame_iff)
  then show ?thesis
    unfolding warn_line_def by (rule io_frame_trans) simp
qed

lemmas log_io_fields [simp] =
  log_trace_io [THEN io_frameD] log_msg_io [THEN io_frameD] warn_line_io [THEN io_frameD]

lemma trace_v_lint [simp]:
  "page_owner (trace_v K p t s) = page_owner s" "cor_last (trace_v K p t s) = cor_last s"
  "rd_ring (trace_v K p t s) = rd_ring s" "rd_w (trace_v K p t s) = rd_w s"
  "n_warns (trace_v K p t s) = n_warns s" "ring (trace_v K p t s) = ring s"
  "ring_w (trace_v K p t s) = ring_w s"
  by (simp_all add: trace_v_def now_us_def split: prod.splits)

lemma log_trace_lint [simp]:
  "page_owner (log_trace K t s) = page_owner s" "cor_last (log_trace K t s) = cor_last s"
  "rd_ring (log_trace K t s) = rd_ring s" "rd_w (log_trace K t s) = rd_w s"
  "n_warns (log_trace K t s) = n_warns s" "ring (log_trace K t s) = ring s"
  "ring_w (log_trace K t s) = ring_w s"
  by (simp_all add: log_trace_def)

lemma warn_line_lint [simp]:
  "page_owner (warn_line K t s) = page_owner s" "cor_last (warn_line K t s) = cor_last s"
  "rd_ring (warn_line K t s) = rd_ring s" "rd_w (warn_line K t s) = rd_w s"
  "n_warns (warn_line K t s) = n_warns s + 1" "ring (warn_line K t s) = ring s"
  "ring_w (warn_line K t s) = ring_w s"
  by (simp_all add: warn_line_def log_msg_def)

lemma log_trace_nosink: "\<not> log_sink s \<Longrightarrow> log_trace K t s = s"
  by (simp add: log_trace_def trace_v_def)

end
