(* ===== verification/Spi_Core.thy ===== *)
theory Spi_Core
  imports Log
begin

text \<open>
  The SPI core of the daemon: framing of the 23-bit address, register writes, pipelined
  register reads, the reset pulse; and the hardware-free backend that \<^verbatim>\<open>SPIPROXY_FUZZ\<close>
  compiles instead. The locale \<open>spi_backend\<close> is what the rest of the daemon relies on; both
  builds are interpretations of it.
\<close>

section \<open>Framing\<close>

definition SPI_WRITE_FLAG :: u32 where [const_defs]: "SPI_WRITE_FLAG = 0x80"
definition SPI_ADDR_HI_MASK :: u32 where [const_defs]: "SPI_ADDR_HI_MASK = 0x7f"
definition SPI_SLICE_SHIFT :: nat where [const_defs]: "SPI_SLICE_SHIFT = 21"
definition SPI_MMD_SHIFT :: nat where [const_defs]: "SPI_MMD_SHIFT = 16"

definition spi_fill :: "bool \<Rightarrow> u32 \<Rightarrow> u32 \<Rightarrow> u8 list" where
  "spi_fill wr addr val =
     (let tx = replicate SPI_BUF_MAX 0xff;
          tx = tx[0 := ucast ((if wr then SPI_WRITE_FLAG else 0) OR
                              (drop_bit 16 addr AND SPI_ADDR_HI_MASK)),
                  1 := ucast (drop_bit 8 addr),
                  2 := ucast addr]
      in if wr then
           tx[3 := ucast (drop_bit 24 val), 4 := ucast (drop_bit 16 val),
              5 := ucast (drop_bit 8 val), 6 := ucast val]
         else tx)"

definition spi_addr :: "u8 \<Rightarrow> u8 \<Rightarrow> u16 \<Rightarrow> u32" where
  "spi_addr sl mmd reg =
     push_bit SPI_SLICE_SHIFT (ucast sl) OR push_bit SPI_MMD_SHIFT (ucast mmd) OR ucast reg"

section \<open>Hardware backend\<close>

definition spi_write_reg :: "'w kernel \<Rightarrow> u8 \<Rightarrow> u8 \<Rightarrow> u16 \<Rightarrow> u32 \<Rightarrow> 'w daemon \<Rightarrow> bool \<times> 'w daemon" where
  "spi_write_reg K sl mmd reg val s =
     (let tx = spi_fill True (spi_addr sl mmd reg) val;
          ((rc, rx), w) = k_spi K (take SPI_BYTES tx) (freq s) (world s);
          s = s\<lparr>world := w\<rparr>
      in if rc < 1 then (False, s\<lparr>n_io_err := n_io_err s + 1\<rparr>)
         else (True, s\<lparr>n_writes := n_writes s + 1\<rparr>))"

definition spi_read_reg ::
    "'w kernel \<Rightarrow> lan80xx_regs \<Rightarrow> u8 \<Rightarrow> u8 \<Rightarrow> u16 \<Rightarrow> 'w daemon \<Rightarrow> u32 option \<times> 'w daemon" where
  "spi_read_reg K R sl mmd reg s =
     (let tx0 = spi_fill False (spi_addr sl mmd reg) 0;
          tx1 = spi_fill False (spi_addr sl MMD_GLOBAL (DEVICE_ID_REG R)) 0;
          ((rc0, rx0), w) = k_spi K (take (SPI_BYTES + pad s) tx0) (freq s) (world s);
          s = s\<lparr>world := w\<rparr>
      in if rc0 < 0 then (None, s\<lparr>n_io_err := n_io_err s + 1\<rparr>)
         else
           (let ((rc1, rx1), w) = k_spi K (take (SPI_BYTES + pad s) tx1) (freq s) (world s);
                s = s\<lparr>world := w\<rparr>
            in if rc1 < 0 then (None, s\<lparr>n_io_err := n_io_err s + 1\<rparr>)
               else
                 (Some (push_bit 24 (ucast (rx1 3)) OR push_bit 16 (ucast (rx1 4)) OR
                        push_bit 8 (ucast (rx1 5)) OR ucast (rx1 6)),
                  s\<lparr>n_reads := n_reads s + 1\<rparr>)))"

definition gpio_set :: "'w kernel \<Rightarrow> int \<Rightarrow> bool \<Rightarrow> 'w daemon \<Rightarrow> int \<times> 'w daemon" where
  "gpio_set K fd value s =
     (let (rc, w) = k_gpio K fd value (world s) in (rc, s\<lparr>world := w\<rparr>))"

definition gpio_pulse_reset :: "'w kernel \<Rightarrow> u32 \<Rightarrow> u32 \<Rightarrow> 'w daemon \<Rightarrow> 'w daemon" where
  "gpio_pulse_reset K assert_us deassert_us s =
     (let s = snd (gpio_set K (rst_fd s) True s);
          s = s\<lparr>world := k_usleep K assert_us (world s)\<rparr>;
          s = snd (gpio_set K (rst_fd s) False s)
      in s\<lparr>world := k_usleep K deassert_us (world s)\<rparr>)"

definition hw_build :: "'w kernel \<Rightarrow> lan80xx_regs \<Rightarrow> 'w build" where
  "hw_build K R =
     \<lparr>b_kernel = K, b_regs = R, b_write_reg = spi_write_reg K, b_read_reg = spi_read_reg K R,
      b_pulse_reset = gpio_pulse_reset K, b_poll_delay = 1000\<rparr>"

section \<open>Fuzzing backend\<close>

text \<open>
  The stub keeps its feed and its position beside the kernel's world \<open>'k\<close>.
\<close>

record 'k fuzz_world =
  g_fuzz_spi :: "u8 list"
  g_fuzz_spi_pos :: nat
  g_fuzz_mb_reads :: u32
  fz_kernel :: 'k

definition SPI_FAIL_MAGIC :: u32 where [const_defs]: "SPI_FAIL_MAGIC = 0xE770FA11"

function fuzz_spi_loop :: "nat \<Rightarrow> u8 list \<Rightarrow> nat \<Rightarrow> u32 \<Rightarrow> u32 \<times> nat" where
  "fuzz_spi_loop i feed pos v =
     (if i < 4 \<and> pos < length feed
      then fuzz_spi_loop (Suc i) feed (Suc pos) (v OR push_bit (i * 8) (ucast (feed ! pos)))
      else (v, pos))"
  by pat_completeness auto
termination
  by (relation "measure (\<lambda>(i, feed, pos, v). 4 - i)") auto

declare fuzz_spi_loop.simps [simp del]

definition fuzz_spi_next :: "'k fuzz_world \<Rightarrow> u32 \<times> 'k fuzz_world" where
  "fuzz_spi_next w =
     (let (v, pos) = fuzz_spi_loop 0 (g_fuzz_spi w) (g_fuzz_spi_pos w) 0
      in (v, w\<lparr>g_fuzz_spi_pos := pos\<rparr>))"

definition fuzz_write_reg ::
    "u8 \<Rightarrow> u8 \<Rightarrow> u16 \<Rightarrow> u32 \<Rightarrow> 'k fuzz_world daemon \<Rightarrow> bool \<times> 'k fuzz_world daemon" where
  "fuzz_write_reg sl mmd reg val s = (True, s\<lparr>n_writes := n_writes s + 1\<rparr>)"

definition fuzz_read_reg ::
    "u8 \<Rightarrow> u8 \<Rightarrow> u16 \<Rightarrow> 'k fuzz_world daemon \<Rightarrow> u32 option \<times> 'k fuzz_world daemon" where
  "fuzz_read_reg sl mmd reg s =
     (if mmd = MMD_GLOBAL \<and> reg = MB_FLAG then
        (if \<not> mb_inflight s then
           (Some 0, s\<lparr>world := (world s)\<lparr>g_fuzz_mb_reads := 0\<rparr>, n_reads := n_reads s + 1\<rparr>)
         else
           (let k = g_fuzz_mb_reads (world s) + 1
            in (Some (MB_F_BUSY OR (if 2 \<le> k then MB_F_RESP else 0)),
                s\<lparr>world := (world s)\<lparr>g_fuzz_mb_reads := k\<rparr>, n_reads := n_reads s + 1\<rparr>)))
      else
        (let (v, w) = fuzz_spi_next (world s); s = s\<lparr>world := w\<rparr>
         in if v = SPI_FAIL_MAGIC then (None, s\<lparr>n_io_err := n_io_err s + 1\<rparr>)
            else (Some v, s\<lparr>n_reads := n_reads s + 1\<rparr>)))"

definition fuzz_pulse_reset :: "u32 \<Rightarrow> u32 \<Rightarrow> 'w daemon \<Rightarrow> 'w daemon" where
  "fuzz_pulse_reset assert_us deassert_us s = s"

definition fuzz_build :: "'k fuzz_world kernel \<Rightarrow> lan80xx_regs \<Rightarrow> 'k fuzz_world build" where
  "fuzz_build K R =
     \<lparr>b_kernel = K, b_regs = R, b_write_reg = fuzz_write_reg, b_read_reg = fuzz_read_reg,
      b_pulse_reset = fuzz_pulse_reset, b_poll_delay = 0\<rparr>"

section \<open>The backend contract\<close>

text \<open>
  A backend changes the outside world and the counters, and what it does depends neither on the
  request buffers nor on the stored cleanup operations (\<open>with_bufs\<close> replaces both).
\<close>

definition with_bufs :: "(nat \<Rightarrow> qitem) \<Rightarrow> (nat \<Rightarrow> spiproxy_op) \<Rightarrow> 'w daemon \<Rightarrow> 'w daemon" where
  "with_bufs x y s = s\<lparr>pool := x, claim_cleanup := y\<rparr>"

locale spi_backend =
  fixes B :: "'w build"
  assumes write_reg: "b_write_reg B sl m r v s = (ok, s') \<Longrightarrow>
      s' = s\<lparr>world := world s', n_writes := n_writes s + of_bool ok,
              n_io_err := n_io_err s + of_bool (\<not> ok)\<rparr>"
    and read_reg: "b_read_reg B sl m r s = (res, s') \<Longrightarrow>
      s' = s\<lparr>world := world s', n_reads := n_reads s + of_bool (res \<noteq> None),
              n_io_err := n_io_err s + of_bool (res = None)\<rparr>"
    and pulse_reset: "b_pulse_reset B a d s = s\<lparr>world := world (b_pulse_reset B a d s)\<rparr>"
    and write_reg_bufs: "b_write_reg B sl m r v (with_bufs x y s) = map_prod id (with_bufs x y) (b_write_reg B sl m r v s)"
    and read_reg_bufs: "b_read_reg B sl m r (with_bufs x y s) = map_prod id (with_bufs x y) (b_read_reg B sl m r s)"
begin

lemma write_reg_io: "b_write_reg B sl m r v s = (ok, s') \<Longrightarrow> io_frame s s'"
  by (drule write_reg) (cases s; cases s'; simp add: io_frame_iff)

lemma read_reg_io: "b_read_reg B sl m r s = (res, s') \<Longrightarrow> io_frame s s'"
  by (drule read_reg) (cases s; cases s'; simp add: io_frame_iff)

lemma pulse_reset_io: "io_frame s (b_pulse_reset B a d s)"
  by (subst pulse_reset) (simp add: io_frame_iff)

end

lemma hw_build_simps [simp]:
  "b_kernel (hw_build K R) = K" "b_regs (hw_build K R) = R"
  "b_write_reg (hw_build K R) = spi_write_reg K" "b_read_reg (hw_build K R) = spi_read_reg K R"
  "b_pulse_reset (hw_build K R) = gpio_pulse_reset K" "b_poll_delay (hw_build K R) = 1000"
  by (simp_all add: hw_build_def)

lemma fuzz_build_simps [simp]:
  "b_kernel (fuzz_build K R) = K" "b_regs (fuzz_build K R) = R"
  "b_write_reg (fuzz_build K R) = fuzz_write_reg" "b_read_reg (fuzz_build K R) = fuzz_read_reg"
  "b_pulse_reset (fuzz_build K R) = fuzz_pulse_reset" "b_poll_delay (fuzz_build K R) = 0"
  by (simp_all add: fuzz_build_def)

interpretation hw: spi_backend "hw_build K R" for K :: "'w kernel" and R
  by unfold_locales
    (auto simp: spi_write_reg_def spi_read_reg_def gpio_pulse_reset_def gpio_set_def with_bufs_def Let_def
      split: prod.splits if_splits)

interpretation fz: spi_backend "fuzz_build K R" for K :: "'k fuzz_world kernel" and R
  by unfold_locales
    (auto simp: fuzz_write_reg_def fuzz_read_reg_def fuzz_pulse_reset_def fuzz_spi_next_def with_bufs_def Let_def
      split: prod.splits if_splits)

end
