(* ===== verification/Op_Exec.thy ===== *)
theory Op_Exec
  imports Spi_Core
begin

text \<open>
  One register operation: the op-log ring (\<open>trace_add\<close>), the cross-client lint detectors
  (\<open>lint_op\<close>), \<open>exec_op\<close> with its slice check and mailbox guard, and the mailbox-internal
  accesses \<open>mb_rd\<close> and \<open>mb_wr\<close>.
\<close>

section \<open>Op log\<close>

definition trace_add :: "'w kernel \<Rightarrow> nat option \<Rightarrow> spiproxy_op \<Rightarrow> 'w daemon \<Rightarrow> 'w daemon" where
  "trace_add K c p s =
     (let w = ring_w s; s = s\<lparr>ring_w := w + 1\<rparr>; (t, s) = now_us K s
      in s\<lparr>ring := (ring s)(unat w mod TRACE_RING :=
             \<lparr>te_ts = t, te_cid = (case c of None \<Rightarrow> 0 | Some i \<Rightarrow> c_id (cl s i)),
              te_slice = o_slice p, te_write = o_write p, te_mmd = o_mmd p, te_reg = o_reg p,
              te_val = o_val p\<rparr>)\<rparr>)"

section \<open>Lint\<close>

definition LINT_COR_WINDOW_US :: u64 where [const_defs]: "LINT_COR_WINDOW_US = 120000000"
definition LINT_RMW_WINDOW_US :: u64 where [const_defs]: "LINT_RMW_WINDOW_US = 10000"

definition lint_side :: "u8 \<Rightarrow> nat option" where
  "lint_side mmd = (if mmd = MMD_HOST_PMA then Some 0 else if mmd = MMD_LINE_PMA then Some 1 else None)"

definition lint_page :: "'w kernel \<Rightarrow> spiproxy_op \<Rightarrow> 'w daemon \<Rightarrow> 'w daemon option" where
  "lint_page K p s =
     (case lint_side (o_mmd p) of
        None \<Rightarrow> Some s
      | Some side \<Rightarrow>
          if o_reg p AND 0xfe00 = 0xf000 then do {
            guard (unat (o_slice p) < SLICE_COUNT \<and> side < SIDE_COUNT);
            let pg = page_owner s (unat (o_slice p)) side;
            if o_reg p = 0xf0ff \<and> o_write p \<noteq> 0 then
              Some (s\<lparr>page_owner := (page_owner s)(unat (o_slice p) :=
                       (page_owner s (unat (o_slice p)))(side :=
                         \<lparr>pg_cid = lctx_cid s, pg_comm = snprintf COMM_PATH_MAX (lctx_comm s)\<rparr>))\<rparr>)
            else if pg_cid pg \<noteq> 0 \<and> pg_cid pg \<noteq> lctx_cid s then
              Some (warn_line K
                (''page-ride: C'' @ pu (lctx_cid s) @ ''('' @ lctx_comm s @ '') '' @
                 (if o_write p \<noteq> 0 then ''W'' else ''R'') @ '' s'' @ pu (o_slice p) @ '' '' @
                 px2 (o_mmd p) @ '' '' @ px4 (o_reg p) @ '' on page set by C'' @
                 pu (pg_cid pg) @ ''('' @ pg_comm pg @ '')'') s)
            else Some s
          }
          else Some s)"

definition lint_cor :: "'w kernel \<Rightarrow> lan80xx_regs \<Rightarrow> u64 \<Rightarrow> spiproxy_op \<Rightarrow> 'w daemon \<Rightarrow> 'w daemon" where
  "lint_cor K R now p s =
     (if o_write p = 0 \<and> o_reg p = HOST_PCS25G_BASER_STATUS2 R \<and>
         (o_mmd p = MMD_HOST_PCS \<or> o_mmd p = MMD_MAC_LINE_PCS) then
        (let k = (if o_mmd p = MMD_HOST_PCS then 0 else 1);
             e = cor_last s k;
             s = (if co_cid e \<noteq> 0 \<and> co_cid e \<noteq> lctx_cid s \<and> now - co_ts e < LINT_COR_WINDOW_US
                  then warn_line K
                    (''cor-poach: C'' @ pu (lctx_cid s) @ ''('' @ lctx_comm s @ '') R s'' @
                     pu (o_slice p) @ '' '' @ px2 (o_mmd p) @ '' 0021 '' @
                     pu ((now - co_ts e) div 1000000) @ ''s after C'' @ pu (co_cid e) @ ''('' @
                     co_comm e @ '') (counters consumed)'') s
                  else s)
         in s\<lparr>cor_last := (cor_last s)(k :=
                \<lparr>co_cid = lctx_cid s, co_comm = snprintf COMM_PATH_MAX (lctx_comm s), co_ts = now\<rparr>)\<rparr>)
      else s)"

definition rmw_hit :: "u64 \<Rightarrow> spiproxy_op \<Rightarrow> 'w daemon \<Rightarrow> nat \<Rightarrow> bool" where
  "rmw_hit now p s i =
     (let e = rd_ring s i
      in rd_cid e \<noteq> 0 \<and> rd_cid e \<noteq> lctx_cid s \<and> rd_slice e = o_slice p \<and> rd_mmd e = o_mmd p \<and>
         rd_reg e = o_reg p \<and> now - rd_ts e < LINT_RMW_WINDOW_US)"

definition lint_rmw :: "'w kernel \<Rightarrow> u64 \<Rightarrow> spiproxy_op \<Rightarrow> 'w daemon \<Rightarrow> 'w daemon" where
  "lint_rmw K now p s =
     (if o_write p \<noteq> 0 then
        (case find (rmw_hit now p s) [0..<RD_RING_COUNT] of
           None \<Rightarrow> s
         | Some i \<Rightarrow>
             (let e = rd_ring s i;
                  s = warn_line K
                    (''rmw-race: C'' @ pu (lctx_cid s) @ ''('' @ lctx_comm s @ '') W s'' @
                     pu (o_slice p) @ '' '' @ px2 (o_mmd p) @ '' '' @ px4 (o_reg p) @ '' '' @
                     pu ((now - rd_ts e) div 1000) @ ''ms after R by C'' @ pu (rd_cid e) @
                     ''('' @ rd_comm e @ '')'') s
              in s\<lparr>rd_ring := (rd_ring s)(i := (rd_ring s i)\<lparr>rd_cid := 0\<rparr>)\<rparr>))
      else
        (let w = unat (rd_w s) mod RD_RING_COUNT
         in s\<lparr>rd_w := rd_w s + 1,
              rd_ring := (rd_ring s)(w :=
                \<lparr>rd_slice = o_slice p, rd_mmd = o_mmd p, rd_reg = o_reg p, rd_cid = lctx_cid s,
                 rd_comm = snprintf COMM_PATH_MAX (lctx_comm s), rd_ts = now\<rparr>)\<rparr>))"

definition lint_op :: "'w kernel \<Rightarrow> lan80xx_regs \<Rightarrow> spiproxy_op \<Rightarrow> 'w daemon \<Rightarrow> 'w daemon option" where
  "lint_op K R p s =
     do {
       let (now, s) = now_us K s;
       s \<leftarrow> lint_page K p s;
       Some (lint_rmw K now p (lint_cor K R now p s))
     }"

section \<open>Executing one operation\<close>

definition op_line :: "lan80xx_regs \<Rightarrow> string \<Rightarrow> bool \<Rightarrow> u8 \<Rightarrow> u8 \<Rightarrow> u16 \<Rightarrow> u32 \<Rightarrow> bool \<Rightarrow> 'w daemon \<Rightarrow> string" where
  "op_line R tag wr sl mmd reg val ok s =
     ''C'' @ pu (lctx_cid s) @ ''('' @ lctx_comm s @ '') seq='' @ pu (lctx_seq s) @ '' OP'' @
     (if tag = '''' then '''' else '' '') @ tag @ '' '' @ (if wr then ''W'' else ''R'') @ '' s'' @
     pu sl @ '' '' @ px2 mmd @ '' '' @ px4 reg @ '' = '' @ px8 val @
     reg_name R mmd reg val wr @ (if ok then '''' else '' IO-ERR'')"

definition in_mb_guard :: "spiproxy_op \<Rightarrow> bool" where
  "in_mb_guard p \<longleftrightarrow> o_mmd p = MMD_GLOBAL \<and> MB_GUARD_LO \<le> o_reg p \<and> o_reg p \<le> MB_GUARD_HI"

definition bus_access :: "'w build \<Rightarrow> spiproxy_op \<Rightarrow> 'w daemon \<Rightarrow> bool \<times> spiproxy_op \<times> 'w daemon" where
  "bus_access B p s =
     (if o_write p \<noteq> 0 then
        (let (ok, s) = b_write_reg B (o_slice p) (o_mmd p) (o_reg p) (o_val p) s in (ok, p, s))
      else
        (case b_read_reg B (o_slice p) (o_mmd p) (o_reg p) s of
           (None, s) \<Rightarrow> (False, p, s)
         | (Some v, s) \<Rightarrow> (True, p\<lparr>o_val := v\<rparr>, s)))"

definition exec_op ::
    "'w build \<Rightarrow> nat option \<Rightarrow> spiproxy_op \<Rightarrow> 'w daemon \<Rightarrow> (spiproxy_status \<times> spiproxy_op \<times> 'w daemon) option" where
  "exec_op B c p s =
     (if SLICE_COUNT \<le> unat (o_slice p) then Some (SPIPROXY_EINVAL, p, s)
      else if mb_inflight s \<and> in_mb_guard p \<and> c \<noteq> None then Some (SPIPROXY_EBUSY, p, s)
      else do {
        let (ok, p, s) = bus_access B p s;
        let s = trace_add (b_kernel B) c p s;
        s \<leftarrow> (if ok then lint_op (b_kernel B) (b_regs B) p s else Some s);
        let s = (if log_sink s then
                   log_debug (b_kernel B)
                     (op_line (b_regs B) (lctx_tag s) (o_write p \<noteq> 0) (o_slice p) (o_mmd p)
                       (o_reg p) (o_val p) ok s) s
                 else s);
        Some (if ok then SPIPROXY_OK else SPIPROXY_EIO, p, s)
      })"

definition mb_rd :: "'w build \<Rightarrow> u8 \<Rightarrow> u16 \<Rightarrow> u32 \<Rightarrow> 'w daemon \<Rightarrow> u32 option \<times> 'w daemon" where
  "mb_rd B sl reg v s =
     (let (r, s) = b_read_reg B sl MMD_GLOBAL reg s;
          v = (case r of None \<Rightarrow> v | Some x \<Rightarrow> x)
      in (r, if log_sink s then
               log_debug (b_kernel B) (op_line (b_regs B) ''mb'' False sl MMD_GLOBAL reg v (r \<noteq> None) s) s
             else s))"

definition mb_wr :: "'w build \<Rightarrow> u8 \<Rightarrow> u16 \<Rightarrow> u32 \<Rightarrow> 'w daemon \<Rightarrow> bool \<times> 'w daemon" where
  "mb_wr B sl reg v s =
     (let (ok, s) = b_write_reg B sl MMD_GLOBAL reg v s
      in (ok, if log_sink s then
                log_debug (b_kernel B) (op_line (b_regs B) ''mb'' True sl MMD_GLOBAL reg v ok s) s
              else s))"

section \<open>Frames\<close>

lemma trace_add_io [simp, intro]: "io_frame s (trace_add K c p s)"
  by (auto simp: trace_add_def now_us_def io_frame_iff Let_def split: prod.splits)

lemma io_frame_updI:
  "io_frame s s' \<Longrightarrow> io_frame s (s'\<lparr>page_owner := x\<rparr>)"
  "io_frame s s' \<Longrightarrow> io_frame s (s'\<lparr>cor_last := y\<rparr>)"
  "io_frame s s' \<Longrightarrow> io_frame s (s'\<lparr>rd_ring := z\<rparr>)"
  "io_frame s s' \<Longrightarrow> io_frame s (s'\<lparr>rd_w := a, rd_ring := z\<rparr>)"
  by (simp_all add: io_frame_iff)

lemma lint_page_io: "unat (o_slice p) < SLICE_COUNT \<Longrightarrow> holds (lint_page K p s) (io_frame s)"
  by (auto simp: lint_page_def lint_side_def wp_simps const_defs Let_def io_frame_updI split: option.splits)

lemma lint_cor_io: "io_frame s (lint_cor K R now p s)"
  by (auto simp: lint_cor_def Let_def intro!: io_frame_updI)

lemma lint_rmw_io: "io_frame s (lint_rmw K now p s)"
  by (auto simp: lint_rmw_def Let_def intro!: io_frame_updI split: option.splits)

lemma lint_op_io:
  assumes "unat (o_slice p) < SLICE_COUNT"
  shows "holds (lint_op K R p s) (io_frame s)"
proof -
  obtain t s1 where t: "now_us K s = (t, s1)" by fastforce
  have "holds (lint_page K p s1) (\<lambda>s2. io_frame s (lint_rmw K t p (lint_cor K R t p s2)))"
  proof (rule holds_mono [OF lint_page_io [OF assms]])
    fix s2 assume "io_frame s1 s2"
    with io_frame_now_us [OF t] lint_cor_io lint_rmw_io
    show "io_frame s (lint_rmw K t p (lint_cor K R t p s2))"
      by (meson io_frame_trans)
  qed
  then show ?thesis by (simp add: lint_op_def t wp_simps)
qed

context spi_backend
begin

lemma bus_access_io: "bus_access B p s = (ok, p', s') \<Longrightarrow> io_frame s s' \<and> o_slice p' = o_slice p"
  by (auto simp: bus_access_def Let_def split: if_splits prod.splits option.splits dest: write_reg_io read_reg_io)

text \<open>An operation that reaches the bus: what the bus did, then only clock readings and log lines.\<close>

lemma exec_op_bus:
  assumes "unat (o_slice p) < SLICE_COUNT" and "\<not> (mb_inflight s \<and> in_mb_guard p \<and> c \<noteq> None)"
    and b: "bus_access B p s = (ok, p1, s1)"
  shows "\<exists>s'. exec_op B c p s = Some (if ok then SPIPROXY_OK else SPIPROXY_EIO, p1, s') \<and> io_frame s1 s'"
proof -
  have tr: "io_frame s1 (trace_add (b_kernel B) c p1 s1)" by simp
  have "holds (if ok then lint_op (b_kernel B) (b_regs B) p1 (trace_add (b_kernel B) c p1 s1)
      else Some (trace_add (b_kernel B) c p1 s1)) (io_frame s1)"
    using assms bus_access_io [OF b] lint_op_io [of p1 "b_kernel B" "b_regs B" "trace_add (b_kernel B) c p1 s1"] tr
    by (auto simp: wp_simps intro: holds_mono io_frame_trans)
  then obtain s2 where s2: "(if ok then lint_op (b_kernel B) (b_regs B) p1 (trace_add (b_kernel B) c p1 s1)
      else Some (trace_add (b_kernel B) c p1 s1)) = Some s2" "io_frame s1 s2" by (auto simp: holds_iff)
  have "io_frame s1 (if log_sink s2 then log_debug (b_kernel B) tx s2 else s2)" for tx
    using s2(2) by (auto intro: io_frame_trans)
  then show ?thesis using assms s2(1) by (auto simp: exec_op_def Let_def)
qed

lemma exec_op_holds: "holds (exec_op B c p s) (\<lambda>(st, p', s'). io_frame s s')"
proof (cases "SLICE_COUNT \<le> unat (o_slice p) \<or> mb_inflight s \<and> in_mb_guard p \<and> c \<noteq> None")
  case True
  then show ?thesis by (auto simp: exec_op_def wp_simps)
next
  case False
  obtain ok p1 s1 where b: "bus_access B p s = (ok, p1, s1)" by (cases "bus_access B p s")
  with False bus_access_io [OF b] exec_op_bus [OF _ _ b, of c] show ?thesis
    by (auto simp: holds_iff not_le intro: io_frame_trans)
qed

lemma mb_rd_io: "mb_rd B sl r v s = (res, s') \<Longrightarrow> io_frame s s'"
  by (auto simp: mb_rd_def Let_def split: prod.splits if_splits
      dest: read_reg_io intro: io_frame_trans [OF read_reg_io])

lemma mb_wr_io: "mb_wr B sl r v s = (ok, s') \<Longrightarrow> io_frame s s'"
  by (auto simp: mb_wr_def Let_def split: prod.splits if_splits
      dest: write_reg_io intro: io_frame_trans [OF write_reg_io])

end

section \<open>Independence of the buffers\<close>

lemma with_bufs_fields [simp]:
  "world (with_bufs x y s) = world s" "log_sink (with_bufs x y s) = log_sink s" "ring_w (with_bufs x y s) = ring_w s"
  "ring (with_bufs x y s) = ring s" "cl (with_bufs x y s) = cl s" "page_owner (with_bufs x y s) = page_owner s"
  "cor_last (with_bufs x y s) = cor_last s" "rd_ring (with_bufs x y s) = rd_ring s" "rd_w (with_bufs x y s) = rd_w s"
  "lctx_cid (with_bufs x y s) = lctx_cid s" "lctx_comm (with_bufs x y s) = lctx_comm s" "lctx_seq (with_bufs x y s) = lctx_seq s"
  "lctx_tag (with_bufs x y s) = lctx_tag s" "mb_inflight (with_bufs x y s) = mb_inflight s" "n_warns (with_bufs x y s) = n_warns s"
  "syslog (with_bufs x y s) = syslog s" "trace_out (with_bufs x y s) = trace_out s"
  by (simp_all add: with_bufs_def)

lemma with_bufs_upd:
  "(with_bufs x y s)\<lparr>page_owner := a\<rparr> = with_bufs x y (s\<lparr>page_owner := a\<rparr>)"
  "(with_bufs x y s)\<lparr>cor_last := b\<rparr> = with_bufs x y (s\<lparr>cor_last := b\<rparr>)"
  "(with_bufs x y s)\<lparr>rd_ring := d\<rparr> = with_bufs x y (s\<lparr>rd_ring := d\<rparr>)"
  "(with_bufs x y s)\<lparr>rd_w := e\<rparr> = with_bufs x y (s\<lparr>rd_w := e\<rparr>)"
  "(with_bufs x y s)\<lparr>ring := f\<rparr> = with_bufs x y (s\<lparr>ring := f\<rparr>)"
  "(with_bufs x y s)\<lparr>ring_w := g\<rparr> = with_bufs x y (s\<lparr>ring_w := g\<rparr>)"
  "(with_bufs x y s)\<lparr>n_warns := h\<rparr> = with_bufs x y (s\<lparr>n_warns := h\<rparr>)"
  "(with_bufs x y s)\<lparr>syslog := i\<rparr> = with_bufs x y (s\<lparr>syslog := i\<rparr>)"
  "(with_bufs x y s)\<lparr>trace_out := j\<rparr> = with_bufs x y (s\<lparr>trace_out := j\<rparr>)"
  "(with_bufs x y s)\<lparr>world := k\<rparr> = with_bufs x y (s\<lparr>world := k\<rparr>)"
  by (simp_all add: with_bufs_def)

lemma now_us_bufs: "now_us K (with_bufs x y s) = map_prod id (with_bufs x y) (now_us K s)"
  by (simp add: now_us_def with_bufs_upd split: prod.split)

lemma trace_v_bufs: "trace_v K p t (with_bufs x y s) = with_bufs x y (trace_v K p t s)"
  by (cases "now_us K s") (simp add: trace_v_def now_us_bufs with_bufs_upd)

lemma log_bufs:
  "log_trace K t (with_bufs x y s) = with_bufs x y (log_trace K t s)"
  "warn_line K t (with_bufs x y s) = with_bufs x y (warn_line K t s)"
  by (simp_all add: log_trace_def warn_line_def log_msg_def trace_v_bufs with_bufs_upd)

lemma trace_add_bufs: "trace_add K c p (with_bufs x y s) = with_bufs x y (trace_add K c p s)"
  by (cases "now_us K (s\<lparr>ring_w := ring_w s + 1\<rparr>)"; cases c)
    (simp_all add: trace_add_def now_us_bufs with_bufs_upd Let_def)

lemma op_line_bufs: "op_line R tag wr sl mmd reg v ok (with_bufs x y s) = op_line R tag wr sl mmd reg v ok s"
  by (simp add: op_line_def)

lemma lint_page_bufs: "lint_page K p (with_bufs x y s) = map_option (with_bufs x y) (lint_page K p s)"
  by (auto simp: lint_page_def with_bufs_upd log_bufs guard_def Let_def split: option.split)

lemma lint_cor_bufs: "lint_cor K R now p (with_bufs x y s) = with_bufs x y (lint_cor K R now p s)"
  by (simp add: lint_cor_def with_bufs_upd log_bufs Let_def)

lemma lint_rmw_bufs: "lint_rmw K now p (with_bufs x y s) = with_bufs x y (lint_rmw K now p s)"
proof -
  have "rmw_hit now p (with_bufs x y s) = rmw_hit now p s" by (simp add: rmw_hit_def fun_eq_iff)
  then show ?thesis by (simp add: lint_rmw_def with_bufs_upd log_bufs Let_def split: option.split)
qed

lemma lint_op_bufs: "lint_op K R p (with_bufs x y s) = map_option (with_bufs x y) (lint_op K R p s)"
  by (cases "now_us K s")
    (simp add: lint_op_def now_us_bufs lint_page_bufs lint_cor_bufs lint_rmw_bufs Option.map_option_bind Option.bind_map_option comp_def)

context spi_backend
begin

lemma bus_access_bufs:
  "bus_access B p (with_bufs x y s) = (case bus_access B p s of (ok, p, s) \<Rightarrow> (ok, p, with_bufs x y s))"
  by (auto simp: bus_access_def write_reg_bufs read_reg_bufs split: prod.split option.split)

text \<open>What an operation does depends neither on the request buffers nor on the cleanup list.\<close>

lemma exec_op_bufs:
  "exec_op B c p (with_bufs x y s) = map_option (\<lambda>(st, p, s). (st, p, with_bufs x y s)) (exec_op B c p s)"
proof -
  obtain ok p1 s1 where b: "bus_access B p s = (ok, p1, s1)" by (cases "bus_access B p s")
  show ?thesis
    by (cases "lint_op (b_kernel B) (b_regs B) p1 (trace_add (b_kernel B) c p1 s1)")
      (auto simp: exec_op_def bus_access_bufs b log_bufs trace_add_bufs lint_op_bufs op_line_bufs Let_def)
qed

end

end
