(* ===== verification/Queue_Heap.thy ===== *)
theory Queue_Heap
  imports Op_Exec "HOL-Library.Multiset"
begin

text \<open>
  Messaging and the request queues: \<open>send_resp\<close>, the three priority queues and the free
  list, which are singly linked lists through \<^verbatim>\<open>qitem_t.next\<close> in the static pool, and the
  pointer walks that \<^verbatim>\<open>drain_queues\<close>, \<^verbatim>\<open>enqueue\<close> and \<^verbatim>\<open>client_drop\<close> do on them.

  A \<^verbatim>\<open>qitem_t **pp\<close> is the queue number together with the predecessor it points into
  (\<^term>\<open>None\<close>: the head). Walks are \<^theory_text>\<open>partial_function\<close>s: on a cyclic list they have no
  result. The second half relates the heap to lists (\<open>links\<close>), and states the contract of the
  queues as the locale \<open>work_queue\<close>.
\<close>

section \<open>Responses\<close>

definition send_resp ::
    "'w build \<Rightarrow> nat \<Rightarrow> spiproxy_hdr \<Rightarrow> spiproxy_status \<Rightarrow> u8 list \<Rightarrow> 'w daemon \<Rightarrow> 'w daemon option" where
  "send_resp B c req status body s =
     do {
       guard (length body \<le> SPIPROXY_MSG_MAX);
       let h = \<lparr>h_ver = SPIPROXY_VER, h_type = h_type req OR SPIPROXY_RESP,
                h_flags = status_code status, h_seq = h_seq req, h_len = of_nat (length body)\<rparr>;
       let msg = enc_hdr h @ body;
       let fd = c_fd (cl s c);
       let (rc, w) = k_send (b_kernel B) fd msg (world s);
       let s = s\<lparr>world := w, sent := sent s @ [(fd, msg)]\<rparr>;
       let s = (if rc < 0 then s\<lparr>cl := (cl s)(c := (cl s c)\<lparr>c_n_err := c_n_err (cl s c) + 1\<rparr>)\<rparr> else s);
       Some (log_debug (b_kernel B)
         (''C'' @ pu (c_id (cl s c)) @ ''('' @ c_comm (cl s c) @ '') seq='' @ pu (h_seq req) @
          '' RSP '' @ type_name (h_type req) @ '' st='' @ status_name status @ '' len='' @
          show_dec (length body)) s)
     }"

section \<open>Queue operations\<close>

definition item_eligible :: "'w daemon \<Rightarrow> nat \<Rightarrow> bool" where
  "item_eligible s it \<longleftrightarrow>
     claim_owner s = None \<or> claim_owner s = Some (q_c (pool s it)) \<or>
     type_code SPIPROXY_CLAIM \<le> h_type (q_hdr (pool s it)) \<and>
     h_type (q_hdr (pool s it)) \<noteq> type_code SPIPROXY_MAILBOX"

definition deref :: "nat \<Rightarrow> nat option \<Rightarrow> 'w daemon \<Rightarrow> nat option" where
  "deref q prev s = (case prev of None \<Rightarrow> qh s q | Some i \<Rightarrow> q_next (pool s i))"

definition set_next :: "nat \<Rightarrow> nat option \<Rightarrow> 'w daemon \<Rightarrow> 'w daemon" where
  "set_next i v s = s\<lparr>pool := (pool s)(i := (pool s i)\<lparr>q_next := v\<rparr>)\<rparr>"

definition set_link :: "nat \<Rightarrow> nat option \<Rightarrow> nat option \<Rightarrow> 'w daemon \<Rightarrow> 'w daemon" where
  "set_link q prev v s =
     (case prev of None \<Rightarrow> s\<lparr>qh := (qh s)(q := v)\<rparr> | Some i \<Rightarrow> set_next i v s)"

definition free_item :: "nat \<Rightarrow> 'w daemon \<Rightarrow> 'w daemon" where
  "free_item it s = (set_next it (freel s) s)\<lparr>freel := Some it\<rparr>"

partial_function (option) find_eligible ::
    "'w daemon \<Rightarrow> nat option \<Rightarrow> nat option \<Rightarrow> (nat option \<times> nat) option option" where
  "find_eligible s prev cur =
     (case cur of
        None \<Rightarrow> Some None
      | Some i \<Rightarrow>
          if item_eligible s i then Some (Some (prev, i))
          else find_eligible s (Some i) (q_next (pool s i)))"

partial_function (option) list_tail :: "'w daemon \<Rightarrow> nat option \<Rightarrow> nat option option" where
  "list_tail s t =
     (case t of
        None \<Rightarrow> Some None
      | Some i \<Rightarrow> (case q_next (pool s i) of None \<Rightarrow> Some (Some i) | Some j \<Rightarrow> list_tail s (Some j)))"

text \<open>The inner loop of \<^verbatim>\<open>drain_queues\<close> on one queue: find, unlink, repair the tail.\<close>

definition take_from :: "nat \<Rightarrow> 'w daemon \<Rightarrow> (nat \<times> 'w daemon) option option" where
  "take_from q s =
     do {
       r \<leftarrow> find_eligible s None (deref q None s);
       case r of
         None \<Rightarrow> Some None
       | Some (prev, it) \<Rightarrow> do {
           let s = set_link q prev (q_next (pool s it)) s;
           s \<leftarrow> (if qt s q = Some it then do {
                     t \<leftarrow> list_tail s (qh s q);
                     Some (s\<lparr>qt := (qt s)(q := t)\<rparr>)
                   }
                 else Some s);
           Some (Some (it, s))
         }
     }"

fun pick_from :: "nat list \<Rightarrow> 'w daemon \<Rightarrow> (nat \<times> 'w daemon) option option" where
  "pick_from [] s = Some None"
| "pick_from (q # qs) s =
     do {
       r \<leftarrow> take_from q s;
       case r of None \<Rightarrow> pick_from qs s | Some x \<Rightarrow> Some (Some x)
     }"

definition pick :: "'w daemon \<Rightarrow> (nat \<times> 'w daemon) option option" where
  "pick s = pick_from [0, 1, 2] s"

definition dequeue :: "'w daemon \<Rightarrow> (nat \<times> 'w daemon) option option" where
  "dequeue s =
     do {
       r \<leftarrow> pick s;
       Some (case r of None \<Rightarrow> None | Some (it, s) \<Rightarrow> Some (it, s\<lparr>n_queued := n_queued s - 1\<rparr>))
     }"

definition prio_queue :: "u16 \<Rightarrow> nat" where
  "prio_queue flags =
     (if flags AND 3 = SPIPROXY_PRIO_HIGH then 0
      else if flags AND 3 = SPIPROXY_PRIO_LOW then 2 else 1)"

definition link_tail :: "nat \<Rightarrow> nat \<Rightarrow> 'w daemon \<Rightarrow> 'w daemon" where
  "link_tail q it s =
     (let s = (case qt s q of None \<Rightarrow> s\<lparr>qh := (qh s)(q := Some it)\<rparr> | Some t \<Rightarrow> set_next t (Some it) s)
      in s\<lparr>qt := (qt s)(q := Some it)\<rparr>)"

definition enqueue ::
    "'w build \<Rightarrow> nat \<Rightarrow> spiproxy_hdr \<Rightarrow> u8 list \<Rightarrow> 'w daemon \<Rightarrow> 'w daemon option" where
  "enqueue B c h body s =
     (let q = prio_queue (h_flags h)
      in case freel s of
           None \<Rightarrow> send_resp B c h SPIPROXY_EBUSY [] s
         | Some it \<Rightarrow> do {
             let s = s\<lparr>freel := q_next (pool s it),
                       pool := (pool s)(it := (pool s it)\<lparr>q_next := None, q_c := c, q_hdr := h\<rparr>)\<rparr>;
             let s = log_debug (b_kernel B)
               (''C'' @ pu (c_id (cl s c)) @ ''('' @ c_comm (cl s c) @ '') seq='' @ pu (h_seq h) @
                '' REQ '' @ type_name (h_type h) @ '' prio='' @ pu (h_flags h AND 3) @ '' len='' @
                pu (h_len h)) s;
             guard (unat (h_len h) \<le> SPIPROXY_MSG_MAX \<and> unat (h_len h) \<le> length body);
             let s = s\<lparr>pool := (pool s)(it := (pool s it)\<lparr>q_body :=
                         mem_write 0 (take (unat (h_len h)) body) (q_body (pool s it))\<rparr>)\<rparr>;
             let s = link_tail q it s;
             Some (s\<lparr>n_queued := n_queued s + 1\<rparr>)
           })"

text \<open>The queue purge of \<^verbatim>\<open>client_drop\<close>: one queue, then its tail.\<close>

partial_function (option) purge_walk :: "nat \<Rightarrow> nat \<Rightarrow> nat option \<Rightarrow> 'w daemon \<Rightarrow> 'w daemon option" where
  "purge_walk c q prev s =
     (case deref q prev s of
        None \<Rightarrow> Some s
      | Some it \<Rightarrow>
          if q_c (pool s it) = c then
            purge_walk c q prev
              ((free_item it (set_link q prev (q_next (pool s it)) s))\<lparr>n_queued := n_queued s - 1\<rparr>)
          else purge_walk c q (Some it) s)"

definition purge_queue :: "nat \<Rightarrow> nat \<Rightarrow> 'w daemon \<Rightarrow> 'w daemon option" where
  "purge_queue c q s =
     do {
       s \<leftarrow> purge_walk c q None s;
       t \<leftarrow> list_tail s (qh s q);
       Some (s\<lparr>qt := (qt s)(q := t)\<rparr>)
     }"

section \<open>Linked lists\<close>

fun path :: "(nat \<Rightarrow> nat option) \<Rightarrow> nat option \<Rightarrow> nat list \<Rightarrow> nat option \<Rightarrow> bool" where
  "path nx p [] r \<longleftrightarrow> p = r"
| "path nx p (x # xs) r \<longleftrightarrow> p = Some x \<and> path nx (nx x) xs r"

lemma path_append: "path nx p (xs @ ys) r \<longleftrightarrow> (\<exists>m. path nx p xs m \<and> path nx m ys r)"
  by (induction xs arbitrary: p) auto

lemma path_upd [simp]: "i \<notin> set xs \<Longrightarrow> path (nx(i := v)) p xs r = path nx p xs r"
  by (induction xs arbitrary: p) auto

lemma path_None [simp]: "path nx None xs None \<longleftrightarrow> xs = []"
  by (cases xs) auto

lemma path_unique: "path nx p xs None \<Longrightarrow> path nx p ys None \<Longrightarrow> xs = ys"
proof (induction xs arbitrary: p ys)
  case (Cons x xs)
  then obtain zs where ys: "ys = x # zs" and zs: "path nx (nx x) zs None"
    by (cases ys) auto
  from Cons.prems have "path nx (nx x) xs None" by simp
  from Cons.IH [OF this zs] ys show ?case by simp
qed simp

lemma path_unlink:
  assumes "path nx p (ys @ it # zs) None" and "distinct (ys @ it # zs)" and "ys \<noteq> []"
  shows "path (nx(last ys := nx it)) p (ys @ zs) None"
proof -
  obtain ws y where ys: "ys = ws @ [y]"
    using assms(3) by (metis append_butlast_last_id)
  with assms(1) obtain m where "path nx p ws m" and "m = Some y" and "path nx (nx it) zs None"
    by (auto simp: path_append)
  then show ?thesis
    using assms(2) by (auto simp: ys path_append intro!: exI [of _ "Some y"])
qed

lemma path_snoc:
  assumes "path nx p xs None" and "distinct xs" and "xs \<noteq> []" and "it \<notin> set xs" and "nx it = None"
  shows "path (nx(last xs := Some it)) p (xs @ [it]) None"
proof -
  obtain ws y where xs: "xs = ws @ [y]"
    using assms(3) by (metis append_butlast_last_id)
  with assms show ?thesis
    by (auto simp: path_append)
qed

definition tail_of :: "nat list \<Rightarrow> nat option" where
  "tail_of xs = (if xs = [] then None else Some (last xs))"

lemma tail_of_simps [simp]: "tail_of [] = None" "tail_of [x] = Some x" "tail_of (xs @ [x]) = Some x"
  "tail_of xs = None \<longleftrightarrow> xs = []"
  by (simp_all add: tail_of_def)

abbreviation nexts :: "'w daemon \<Rightarrow> nat \<Rightarrow> nat option" where
  "nexts s \<equiv> (\<lambda>i. q_next (pool s i))"

lemma nexts_set_next [simp]: "nexts (set_next i v s) = (nexts s)(i := v)"
  by (auto simp: set_next_def)

lemma set_next_fields [simp]:
  "qh (set_next i v s) = qh s" "qt (set_next i v s) = qt s" "freel (set_next i v s) = freel s"
  "n_queued (set_next i v s) = n_queued s"
  by (simp_all add: set_next_def)

lemma find_eligible_path:
  "path (nexts s) cur xs None \<Longrightarrow>
   find_eligible s prev cur =
     Some (case dropWhile (\<lambda>i. \<not> item_eligible s i) xs of
             [] \<Rightarrow> None
           | it # zs \<Rightarrow>
               let ys = takeWhile (\<lambda>i. \<not> item_eligible s i) xs
               in Some (if ys = [] then prev else Some (last ys), it))"
proof (induction xs arbitrary: prev cur)
  case Nil
  then show ?case by (simp add: find_eligible.simps)
next
  case (Cons x xs)
  show ?case
  proof (cases "item_eligible s x")
    case True
    with Cons.prems show ?thesis by (simp add: find_eligible.simps)
  next
    case False
    with Cons.prems Cons.IH [of "q_next (pool s x)" "Some x"]
    have "find_eligible s prev cur =
        Some (case dropWhile (\<lambda>i. \<not> item_eligible s i) xs of [] \<Rightarrow> None
          | it # zs \<Rightarrow> let ys = takeWhile (\<lambda>i. \<not> item_eligible s i) xs
               in Some (if ys = [] then Some x else Some (last ys), it))"
      by (subst find_eligible.simps) simp
    with False show ?thesis
      by (cases "dropWhile (\<lambda>i. \<not> item_eligible s i) xs") (simp_all del: dropWhile_eq_Nil_conv)
  qed
qed

lemma list_tail_path: "path (nexts s) p xs None \<Longrightarrow> list_tail s p = Some (tail_of xs)"
proof (induction xs arbitrary: p)
  case Nil
  then show ?case by (simp add: list_tail.simps)
next
  case (Cons x xs)
  show ?case
  proof (cases xs)
    case Nil
    with Cons.prems show ?thesis by (simp add: list_tail.simps tail_of_def)
  next
    case (Cons y ys)
    with Cons.prems have "list_tail s p = list_tail s (Some y)"
      by (subst list_tail.simps) simp
    with Cons Cons.prems Cons.IH [of "Some y"] show ?thesis
      by (simp add: tail_of_def)
  qed
qed

section \<open>The heap as lists\<close>

text \<open>
  \<open>chained s F Q L\<close>: the free list is \<open>F\<close>, queue \<open>q\<close> is \<open>Q q\<close>, \<open>L\<close> lists the items that are
  being executed, and together they are exactly the pool, each item once. \<open>links\<close> adds the
  tail pointers and \<open>sched_ok\<close> the counter.
\<close>

definition chained :: "'w daemon \<Rightarrow> nat list \<Rightarrow> (nat \<Rightarrow> nat list) \<Rightarrow> nat list \<Rightarrow> bool" where
  "chained s F Q L \<longleftrightarrow>
     path (nexts s) (freel s) F None \<and>
     (\<forall>q < 3. path (nexts s) (qh s q) (Q q) None) \<and>
     mset (F @ Q 0 @ Q 1 @ Q 2 @ L) = mset [0..<MAX_QITEMS]"

definition links :: "'w daemon \<Rightarrow> nat list \<Rightarrow> (nat \<Rightarrow> nat list) \<Rightarrow> nat list \<Rightarrow> bool" where
  "links s F Q L \<longleftrightarrow> chained s F Q L \<and> (\<forall>q < 3. qt s q = tail_of (Q q))"

definition sched_ok :: "'w daemon \<Rightarrow> nat list \<Rightarrow> (nat \<Rightarrow> nat list) \<Rightarrow> nat list \<Rightarrow> bool" where
  "sched_ok s F Q L \<longleftrightarrow> links s F Q L \<and> n_queued s = int (length (Q 0 @ Q 1 @ Q 2))"

text \<open>The queue part of the state, as far as it is linked; and the frame of a relinking.\<close>

definition link_of :: "'w daemon \<Rightarrow>
    (nat \<Rightarrow> nat option) \<times> (nat \<Rightarrow> nat option) \<times> (nat \<Rightarrow> nat option) \<times> nat option \<times> int" where
  "link_of s = (qh s, qt s, nexts s, freel s, n_queued s)"

definition item_of :: "'w daemon \<Rightarrow> nat \<Rightarrow> nat \<times> spiproxy_hdr \<times> mem" where
  "item_of s i = (q_c (pool s i), q_hdr (pool s i), q_body (pool s i))"

definition relinked :: "'w daemon \<Rightarrow> 'w daemon \<Rightarrow> bool" where
  "relinked s s' \<longleftrightarrow>
     (\<exists>h t p f n. s' = s\<lparr>qh := h, qt := t, pool := p, freel := f, n_queued := n\<rparr>) \<and>
     item_of s' = item_of s"

lemma links_cong: "link_of s' = link_of s \<Longrightarrow> links s' F Q L = links s F Q L"
  by (simp add: link_of_def links_def chained_def)

lemma sched_ok_cong: "link_of s' = link_of s \<Longrightarrow> sched_ok s' F Q L = sched_ok s F Q L"
  using links_cong [of s' s F Q L] by (simp add: sched_ok_def link_of_def)

lemma links_chained: "links s F Q L \<Longrightarrow> chained s F Q L"
  by (simp add: links_def)

lemma chained_distinct: "chained s F Q L \<Longrightarrow> distinct (F @ Q 0 @ Q 1 @ Q 2 @ L)"
  unfolding chained_def by (metis distinct_upt mset_eq_imp_distinct_iff)

lemma less_3: "q < (3 :: nat) \<longleftrightarrow> q = 0 \<or> q = 1 \<or> q = 2"
  by auto

lemma chained_disjoint:
  assumes "chained s F Q L" and "q < 3"
  shows "distinct (Q q)" and "set (Q q) \<inter> set F = {}" and "set (Q q) \<inter> set L = {}"
    and "q' < 3 \<Longrightarrow> q' \<noteq> q \<Longrightarrow> set (Q q) \<inter> set (Q q') = {}"
  using chained_distinct [OF assms(1)] assms(2) unfolding less_3 by auto

lemma chained_range:
  assumes "chained s F Q L"
  shows "set (F @ Q 0 @ Q 1 @ Q 2 @ L) = {..<MAX_QITEMS}"
proof -
  have "set (F @ Q 0 @ Q 1 @ Q 2 @ L) = set [0..<MAX_QITEMS]"
    using assms unfolding chained_def by (intro mset_eq_setD) simp
  then show ?thesis by (simp only: set_upt atLeast0LessThan)
qed

lemma chained_count:
  assumes "chained s F Q L"
  shows "length F + length (Q 0) + length (Q 1) + length (Q 2) + length L = MAX_QITEMS"
proof -
  have "size (mset (F @ Q 0 @ Q 1 @ Q 2 @ L)) = size (mset [0..<MAX_QITEMS])"
    using assms unfolding chained_def by simp
  then show ?thesis by simp
qed

lemma relinkedI: "item_of (s\<lparr>qh := h, qt := t, pool := p, freel := f, n_queued := n\<rparr>) = item_of s \<Longrightarrow>
    relinked s (s\<lparr>qh := h, qt := t, pool := p, freel := f, n_queued := n\<rparr>)"
  unfolding relinked_def by blast

lemma relinkedE:
  assumes "relinked s s'"
  obtains h t p f n where "s' = s\<lparr>qh := h, qt := t, pool := p, freel := f, n_queued := n\<rparr>"
    and "item_of s' = item_of s"
  using assms unfolding relinked_def by blast

lemma relinked_refl [simp, intro]: "relinked s s"
  using relinkedI [where s = s and h = "qh s" and t = "qt s" and p = "pool s" and f = "freel s"
      and n = "n_queued s"] by simp

lemma relinked_trans: "relinked s s' \<Longrightarrow> relinked s' s'' \<Longrightarrow> relinked s s''"
  by (elim relinkedE) (simp add: relinkedI)

lemma relinked_eligible: "relinked s s' \<Longrightarrow> item_eligible s' = item_eligible s"
  by (erule relinkedE) (auto simp: item_eligible_def item_of_def fun_eq_iff)

lemma relinked_upd:
  "relinked s (s\<lparr>qh := h\<rparr>)" "relinked s (s\<lparr>qt := t\<rparr>)" "relinked s (s\<lparr>freel := f\<rparr>)"
  "relinked s (s\<lparr>n_queued := n\<rparr>)"
  by (cases s, force simp: relinked_def item_of_def)+

lemma relinked_set_next [simp, intro]: "relinked s (set_next i v s)"
  by (cases s) (force simp: set_next_def relinked_def item_of_def)

lemma relinked_set_link [simp, intro]: "relinked s (set_link q prev v s)"
  by (simp add: set_link_def relinked_upd split: option.splits)

lemma set_link_fields [simp]:
  "qt (set_link q prev v s) = qt s" "freel (set_link q prev v s) = freel s"
  "n_queued (set_link q prev v s) = n_queued s"
  by (simp_all add: set_link_def set_next_def split: option.splits)

section \<open>Taking an item out\<close>

lemma unlink_chained:
  assumes l: "chained s F Q L" and q: "q < 3" and xs: "Q q = ys @ it # zs"
  defines "s1 \<equiv> set_link q (if ys = [] then None else Some (last ys)) (q_next (pool s it)) s"
  shows "path (nexts s1) (qh s1 q) (ys @ zs) None"
    and "q' < 3 \<Longrightarrow> q' \<noteq> q \<Longrightarrow> path (nexts s1) (qh s1 q') (Q q') None"
    and "path (nexts s1) (freel s1) F None"
proof -
  note d = chained_disjoint [OF l q]
  have p: "path (nexts s) (qh s q) (ys @ it # zs) None"
    using l q xs by (auto simp: chained_def)
  have y: "ys \<noteq> [] \<Longrightarrow> last ys \<in> set (Q q)" by (simp add: xs)
  show "path (nexts s1) (qh s1 q) (ys @ zs) None"
  proof (cases "ys = []")
    case True
    with p show ?thesis by (simp add: s1_def set_link_def)
  next
    case False
    have "path ((nexts s)(last ys := nexts s it)) (qh s q) (ys @ zs) None"
      using path_unlink [OF p] d(1) False by (simp add: xs)
    with False show ?thesis
      by (simp add: s1_def set_link_def)
  qed
  show "path (nexts s1) (qh s1 q') (Q q') None" if "q' < 3" "q' \<noteq> q"
  proof -
    have "path (nexts s) (qh s q') (Q q') None" using l that by (auto simp: chained_def)
    moreover have "ys \<noteq> [] \<Longrightarrow> last ys \<notin> set (Q q')" using y d(4) [OF that] by auto
    ultimately show ?thesis
      using that by (auto simp: s1_def set_link_def)
  qed
  show "path (nexts s1) (freel s1) F None"
  proof -
    have "path (nexts s) (freel s) F None" using l by (auto simp: chained_def)
    moreover have "ys \<noteq> [] \<Longrightarrow> last ys \<notin> set F" using y d(2) by auto
    ultimately show ?thesis by (auto simp: s1_def set_link_def)
  qed
qed

lemma mset_split3:
  fixes Q :: "nat \<Rightarrow> nat list"
  assumes "q < 3" and "mset (Q q) = mset (Q' q) + M"
    and "\<And>q'. q' < 3 \<Longrightarrow> q' \<noteq> q \<Longrightarrow> Q' q' = Q q'"
  shows "mset (Q 0 @ Q 1 @ Q 2) = mset (Q' 0 @ Q' 1 @ Q' 2) + M"
  using assms unfolding less_3 by (elim disjE) (simp_all add: union_ac)

lemma unlink_step_chained:
  assumes c: "chained s F Q L" and q: "q < 3" and xs: "Q q = ys @ it # zs"
  defines "prev \<equiv> if ys = [] then None else Some (last ys)"
  shows "chained (set_link q prev (q_next (pool s it)) s) F (Q(q := ys @ zs)) (it # L)"
proof -
  let ?s = "set_link q prev (q_next (pool s it)) s"
  note u = unlink_chained [OF c q xs, folded prev_def]
  have "mset (Q 0 @ Q 1 @ Q 2) = mset ((Q(q := ys @ zs)) 0 @ (Q(q := ys @ zs)) 1 @ (Q(q := ys @ zs)) 2) + {#it#}"
    using q by (rule mset_split3) (simp_all add: xs)
  moreover have "\<forall>q' < 3. path (nexts ?s) (qh ?s q') ((Q(q := ys @ zs)) q') None"
    using u by auto
  ultimately show ?thesis using u(3) c unfolding chained_def by (simp add: union_ac)
qed

lemma repair_tail:
  assumes p: "path (nexts s) (qh s q) (ys @ zs) None" and t: "qt s q = tail_of (ys @ it # zs)"
    and d: "distinct (ys @ it # zs)"
  shows "(if qt s q = Some it then list_tail s (qh s q) \<bind> (\<lambda>t. Some (s\<lparr>qt := (qt s)(q := t)\<rparr>)) else Some s) =
    Some (s\<lparr>qt := (qt s)(q := tail_of (ys @ zs))\<rparr>)"
proof (cases "zs = []")
  case True
  with t have "qt s q = Some it" by (simp add: tail_of_def)
  with list_tail_path [OF p] show ?thesis by simp
next
  case False
  with t have "qt s q = tail_of (ys @ zs)" by (simp add: tail_of_def)
  moreover from False d have "tail_of (ys @ zs) \<noteq> Some it" by (auto simp: tail_of_def)
  ultimately show ?thesis by (cases s) (auto simp: fun_upd_idem)
qed

lemma take_from_split:
  assumes l: "links s F Q L" and q: "q < 3" and xs: "Q q = ys @ it # zs"
    and ys: "\<forall>y \<in> set ys. \<not> item_eligible s y" and it: "item_eligible s it"
  shows "\<exists>s'. take_from q s = Some (Some (it, s')) \<and> links s' F (Q(q := ys @ zs)) (it # L) \<and>
     relinked s s' \<and> n_queued s' = n_queued s"
proof -
  define prev where "prev = (if ys = [] then None else Some (last ys))"
  define s1 where "s1 = set_link q prev (q_next (pool s it)) s"
  define s2 where "s2 = s1\<lparr>qt := (qt s1)(q := tail_of (ys @ zs))\<rparr>"
  note c = links_chained [OF l]
  have p: "path (nexts s) (qh s q) (Q q) None" and t: "qt s1 q = tail_of (ys @ it # zs)"
    using l q xs by (auto simp: links_def chained_def s1_def)
  have dw: "dropWhile (\<lambda>i. \<not> item_eligible s i) (Q q) = it # zs"
    "takeWhile (\<lambda>i. \<not> item_eligible s i) (Q q) = ys"
    using ys it by (simp_all add: xs dropWhile_append takeWhile_append)
  have find: "find_eligible s None (deref q None s) = Some (Some (prev, it))"
    by (simp add: deref_def find_eligible_path [OF p] dw prev_def)
  have "path (nexts s1) (qh s1 q) (ys @ zs) None"
    using unlink_chained(1) [OF c q xs] by (simp add: s1_def prev_def)
  note tail = repair_tail [OF this t, folded s2_def]
  have "take_from q s = Some (Some (it, s2))"
    using tail chained_disjoint(1) [OF c q] xs
    by (cases "list_tail s1 (qh s1 q)") (auto simp: take_from_def find s1_def split: if_splits)
  moreover have "links s2 F (Q(q := ys @ zs)) (it # L)"
    using unlink_step_chained [OF c q xs] l by (auto simp: links_def chained_def s2_def s1_def prev_def)
  moreover have "relinked s s2"
    unfolding s2_def s1_def using relinked_set_link relinked_upd(2) relinked_trans by blast
  ultimately show ?thesis by (auto simp: s2_def s1_def)
qed

lemma find_split:
  assumes "find P xs = Some x"
  obtains ys zs where "xs = ys @ x # zs" and "\<forall>y \<in> set ys. \<not> P y" and "P x"
  using assms
proof (induction xs arbitrary: thesis)
  case (Cons a xs)
  show ?case
  proof (cases "P a")
    case True
    with Cons.prems show ?thesis using Cons.prems(1) [of "[]" xs] by simp
  next
    case False
    with Cons.prems(2) obtain ys zs where "xs = ys @ x # zs" "\<forall>y \<in> set ys. \<not> P y" "P x"
      using Cons.IH by auto
    with False show ?thesis using Cons.prems(1) [of "a # ys" zs] by simp
  qed
qed simp

lemma take_from_holds:
  assumes l: "links s F Q L" and q: "q < 3"
  shows "holds (take_from q s) (\<lambda>r. case find (item_eligible s) (Q q) of
      None \<Rightarrow> r = None
    | Some it \<Rightarrow> \<exists>s'. r = Some (it, s') \<and> links s' F (Q(q := remove1 it (Q q))) (it # L) \<and>
        relinked s s' \<and> n_queued s' = n_queued s)"
proof (cases "find (item_eligible s) (Q q)")
  case None
  have "path (nexts s) (qh s q) (Q q) None"
    using l q by (simp add: links_def chained_def)
  moreover have "dropWhile (\<lambda>i. \<not> item_eligible s i) (Q q) = []"
    using None by (auto simp: find_None_iff)
  ultimately show ?thesis
    by (simp add: take_from_def deref_def find_eligible_path None wp_simps del: dropWhile_eq_Nil_conv)
next
  case (Some it)
  then obtain ys zs where xs: "Q q = ys @ it # zs" and ys: "\<forall>y \<in> set ys. \<not> item_eligible s y"
    and it: "item_eligible s it"
    by (rule find_split)
  have "it \<notin> set ys" using ys it by auto
  then have "remove1 it (Q q) = ys @ zs" by (simp add: xs remove1_append)
  with take_from_split [OF l q xs ys it] Some show ?thesis
    by (auto simp: wp_simps)
qed

text \<open>The scheduling policy on lists: the first eligible item of the first queue that has one.\<close>

fun pick_spec :: "(nat \<Rightarrow> bool) \<Rightarrow> (nat \<Rightarrow> nat list) \<Rightarrow> nat list \<Rightarrow> (nat \<times> nat) option" where
  "pick_spec e Q [] = None"
| "pick_spec e Q (q # qs) =
     (case find e (Q q) of None \<Rightarrow> pick_spec e Q qs | Some it \<Rightarrow> Some (q, it))"

lemma pick_from_holds:
  assumes l: "links s F Q L" and "set qs \<subseteq> {..<3}"
  shows "holds (pick_from qs s) (\<lambda>r. case pick_spec (item_eligible s) Q qs of
      None \<Rightarrow> r = None
    | Some (q, it) \<Rightarrow> \<exists>s'. r = Some (it, s') \<and> links s' F (Q(q := remove1 it (Q q))) (it # L) \<and>
        relinked s s' \<and> n_queued s' = n_queued s)"
  using assms(2)
proof (induction qs)
  case Nil
  then show ?case by (simp add: wp_simps)
next
  case (Cons q qs)
  then have "q < 3" by simp
  from take_from_holds [OF l this] Cons show ?case
    by (cases "find (item_eligible s) (Q q)") (auto simp: wp_simps holds_iff)
qed

lemma pick_spec_mem: "pick_spec e Q qs = Some (q, it) \<Longrightarrow> q \<in> set qs \<and> it \<in> set (Q q) \<and> e it"
  by (induction qs) (auto simp: find_Some_iff split: option.splits)

lemma pick_spec_first:
  "pick_spec e Q qs = Some (q, it) \<Longrightarrow>
   \<exists>ps rs ys zs. qs = ps @ q # rs \<and> (\<forall>p \<in> set ps. \<forall>i \<in> set (Q p). \<not> e i) \<and>
     Q q = ys @ it # zs \<and> (\<forall>y \<in> set ys. \<not> e y)"
proof (induction qs)
  case (Cons p qs)
  show ?case
  proof (cases "find e (Q p)")
    case None
    with Cons obtain ps rs ys zs where "qs = ps @ q # rs" "\<forall>p \<in> set ps. \<forall>i \<in> set (Q p). \<not> e i"
      "Q q = ys @ it # zs" "\<forall>y \<in> set ys. \<not> e y" by auto
    with None show ?thesis
      by (intro exI [of _ "p # ps"] exI [of _ rs] exI [of _ ys] exI [of _ zs])
        (auto simp: find_None_iff)
  next
    case (Some x)
    with Cons.prems have "p = q" "x = it" by auto
    with Some show ?thesis by (metis append_Nil empty_iff empty_set find_split)
  qed
qed simp

lemma pick_spec_None: "pick_spec e Q qs = None \<longleftrightarrow> (\<forall>q \<in> set qs. \<forall>i \<in> set (Q q). \<not> e i)"
  by (induction qs) (auto simp: find_None_iff find_Some_iff split: option.splits)

declare pick_spec.simps [simp del]

section \<open>Putting items back\<close>

lemma free_item_chained: "chained s F Q (it # L) \<Longrightarrow> chained (free_item it s) (it # F) Q L"
  using chained_distinct [of s F Q "it # L"]
  by (auto simp: chained_def free_item_def less_3)

lemma free_item_links: "links s F Q (it # L) \<Longrightarrow> links (free_item it s) (it # F) Q L"
  using free_item_chained [of s F Q it L] by (simp add: links_def) (simp add: free_item_def)

lemma free_item_relinked [simp, intro]: "relinked s (free_item it s)"
  unfolding free_item_def by (rule relinked_trans [OF relinked_set_next relinked_upd(3)])

lemma free_item_n_queued [simp]: "n_queued (free_item it s) = n_queued s"
  by (simp add: free_item_def)

lemma link_tail_links:
  assumes l: "links s F Q (it # L)" and q: "q < 3" and n: "nexts s it = None"
  shows "links (link_tail q it s) F (Q(q := Q q @ [it])) L"
proof -
  define s1 where "s1 = (case qt s q of None \<Rightarrow> s\<lparr>qh := (qh s)(q := Some it)\<rparr>
      | Some t \<Rightarrow> set_next t (Some it) s)"
  note c = links_chained [OF l]
  note d = chained_disjoint [OF c q]
  have p: "path (nexts s) (qh s q) (Q q) None" and t: "qt s q = tail_of (Q q)"
    using l q by (auto simp: links_def chained_def)
  have it: "it \<notin> set (Q q')" if "q' < 3" for q'
    using chained_disjoint(3) [OF c that] by auto
  have s1: "nexts s1 = (if Q q = [] then nexts s else (nexts s)(last (Q q) := Some it))"
    "qh s1 = (if Q q = [] then (qh s)(q := Some it) else qh s)" "qt s1 = qt s" "freel s1 = freel s"
    by (auto simp: s1_def t tail_of_def split: option.splits)
  have "path (nexts s1) (qh s1 q) (Q q @ [it]) None"
  proof (cases "Q q = []")
    case True
    with n show ?thesis by (simp add: s1)
  next
    case False
    with path_snoc [OF p d(1) False it [OF q] n] show ?thesis by (simp add: s1)
  qed
  moreover have "path (nexts s1) (qh s1 q') (Q q') None" if "q' < 3" "q' \<noteq> q" for q'
  proof -
    have "path (nexts s) (qh s q') (Q q') None" using c that by (simp add: chained_def)
    moreover have "Q q \<noteq> [] \<Longrightarrow> last (Q q) \<notin> set (Q q')" using d(4) [OF that] last_in_set [of "Q q"] by blast
    ultimately show ?thesis using that by (auto simp: s1)
  qed
  moreover have "path (nexts s1) (freel s1) F None"
  proof -
    have "path (nexts s) (freel s) F None" using c by (simp add: chained_def)
    moreover have "Q q \<noteq> [] \<Longrightarrow> last (Q q) \<notin> set F" using d(2) last_in_set [of "Q q"] by blast
    ultimately show ?thesis by (auto simp: s1)
  qed
  moreover have "mset ((Q(q := Q q @ [it])) 0 @ (Q(q := Q q @ [it])) 1 @ (Q(q := Q q @ [it])) 2) =
      mset (Q 0 @ Q 1 @ Q 2) + {#it#}"
    using q by (rule mset_split3) simp_all
  ultimately show ?thesis
    using l by (auto simp: link_tail_def Let_def s1_def [symmetric] s1 links_def chained_def union_ac)
qed

lemma link_tail_relinked: "relinked s (link_tail q it s)"
  unfolding link_tail_def Let_def
  by (rule relinked_trans [OF _ relinked_upd(2)]) (simp add: relinked_upd split: option.splits)

lemma link_tail_n_queued [simp]: "n_queued (link_tail q it s) = n_queued s"
  by (simp add: link_tail_def Let_def split: option.splits)

lemma alloc_links:
  assumes l: "links s (it # F) Q L" and p: "q_next p = None"
  shows "links (s\<lparr>freel := q_next (pool s it), pool := (pool s)(it := p)\<rparr>) F Q (it # L)"
proof -
  let ?s = "s\<lparr>freel := q_next (pool s it), pool := (pool s)(it := p)\<rparr>"
  have nx: "nexts ?s = (nexts s)(it := None)" using p by auto
  have "it \<notin> set F" and "q < 3 \<Longrightarrow> it \<notin> set (Q q)" for q
    using chained_distinct [OF links_chained [OF l]] by (auto simp: less_3)
  then show ?thesis
    using l unfolding links_def chained_def nx by auto
qed

section \<open>Purging a client\<close>

lemma deref_path:
  assumes "path (nexts s) (qh s q) (ys @ zs) None" and "prev = (if ys = [] then None else Some (last ys))"
  shows "deref q prev s = (case zs of [] \<Rightarrow> None | it # zs' \<Rightarrow> Some it)"
proof (cases ys rule: rev_cases)
  case Nil
  with assms show ?thesis by (cases zs) (simp_all add: deref_def)
next
  case (snoc ws y)
  with assms show ?thesis by (cases zs) (auto simp: deref_def path_append)
qed

text \<open>What the walk over the rest \<open>zs\<close> of queue \<open>q\<close> leaves, having kept \<open>ys\<close>.\<close>

definition purges ::
    "nat \<Rightarrow> nat \<Rightarrow> nat list \<Rightarrow> nat list \<Rightarrow> nat list \<Rightarrow> (nat \<Rightarrow> nat list) \<Rightarrow> nat list \<Rightarrow> 'w daemon \<Rightarrow> 'w daemon \<Rightarrow> bool" where
  "purges c q ys zs F Q L s s' \<longleftrightarrow>
     chained s' (rev (filter (\<lambda>i. q_c (pool s i) = c) zs) @ F)
       (Q(q := ys @ filter (\<lambda>i. q_c (pool s i) \<noteq> c) zs)) L \<and>
     relinked s s' \<and> qt s' = qt s \<and>
     n_queued s' = n_queued s - int (length (filter (\<lambda>i. q_c (pool s i) = c) zs))"

lemma purges_free:
  assumes c: "chained s F Q L" "q < 3" "Q q = ys @ it # zs" and prev: "prev = (if ys = [] then None else Some (last ys))"
    and it: "q_c (pool s it) = c"
  defines "s1 \<equiv> (free_item it (set_link q prev (q_next (pool s it)) s))\<lparr>n_queued := n_queued s - 1\<rparr>"
  shows "chained s1 (it # F) (Q(q := ys @ zs)) L" and "q_c (pool s1 i) = q_c (pool s i)"
    and "purges c q ys zs (it # F) (Q(q := ys @ zs)) L s1 s' \<Longrightarrow> purges c q ys (it # zs) F Q L s s'"
proof -
  show "chained s1 (it # F) (Q(q := ys @ zs)) L"
    using free_item_chained [OF unlink_step_chained [OF c]] by (auto simp: s1_def chained_def prev)
  have rel: "relinked s s1"
    unfolding s1_def
    by (rule relinked_trans [OF relinked_set_link relinked_trans [OF free_item_relinked relinked_upd(4)]])
  then have qc: "q_c (pool s1 i) = q_c (pool s i)" for i
    by (auto elim!: relinkedE simp: item_of_def fun_eq_iff)
  then show "q_c (pool s1 i) = q_c (pool s i)" .
  have "qt s1 = qt s" "n_queued s1 = n_queued s - 1" by (simp_all add: s1_def free_item_def)
  moreover assume "purges c q ys zs (it # F) (Q(q := ys @ zs)) L s1 s'"
  ultimately show "purges c q ys (it # zs) F Q L s s'"
    using relinked_trans [OF rel, of s'] it by (simp add: purges_def qc)
qed

lemma purge_walk_chained:
  assumes "chained s F Q L" and "q < 3" and "Q q = ys @ zs" and "\<forall>y \<in> set ys. q_c (pool s y) \<noteq> c"
    and "prev = (if ys = [] then None else Some (last ys))"
  shows "\<exists>s'. purge_walk c q prev s = Some s' \<and> purges c q ys zs F Q L s s'"
  using assms
proof (induction zs arbitrary: s F Q ys prev)
  case Nil
  have "deref q prev s = None"
    using deref_path [of s q ys "[]" prev] Nil by (auto simp: chained_def)
  moreover have "Q(q := ys) = Q" using Nil.prems(3) by auto
  ultimately show ?case using Nil.prems(1) by (simp add: purge_walk.simps [of c q prev s] purges_def)
next
  case (Cons it zs)
  have d: "deref q prev s = Some it"
    using deref_path [of s q ys "it # zs" prev] Cons.prems by (auto simp: chained_def)
  show ?case
  proof (cases "q_c (pool s it) = c")
    case True
    let ?s1 = "(free_item it (set_link q prev (q_next (pool s it)) s))\<lparr>n_queued := n_queued s - 1\<rparr>"
    note f = purges_free [OF Cons.prems(1-3) Cons.prems(5) True]
    have "\<exists>s'. purge_walk c q prev ?s1 = Some s' \<and> purges c q ys zs (it # F) (Q(q := ys @ zs)) L ?s1 s'"
      by (rule Cons.IH [OF f(1) Cons.prems(2)]) (use f(2) Cons.prems(4,5) in simp_all)
    then show ?thesis using f(3) by (subst purge_walk.simps) (auto simp: d True)
  next
    case False
    have "purge_walk c q prev s = purge_walk c q (Some it) s"
      by (subst purge_walk.simps) (simp add: d False)
    with Cons.IH [OF Cons.prems(1,2), of "ys @ [it]" "Some it"] Cons.prems False show ?thesis
      by (simp add: purges_def)
  qed
qed

lemma purge_queue_holds:
  assumes l: "sched_ok s F Q L" and q: "q < 3"
  shows "holds (purge_queue c q s) (\<lambda>s'.
     sched_ok s' (rev (filter (\<lambda>i. q_c (pool s i) = c) (Q q)) @ F)
       (Q(q := filter (\<lambda>i. q_c (pool s i) \<noteq> c) (Q q))) L \<and> relinked s s')"
proof -
  let ?Q = "Q(q := filter (\<lambda>i. q_c (pool s i) \<noteq> c) (Q q))"
  from l have lk: "links s F Q L" and n: "n_queued s = int (length (Q 0 @ Q 1 @ Q 2))"
    by (auto simp: sched_ok_def)
  obtain s1 where s1: "purge_walk c q None s = Some s1"
    "chained s1 (rev (filter (\<lambda>i. q_c (pool s i) = c) (Q q)) @ F) ?Q L" "relinked s s1" "qt s1 = qt s"
    "n_queued s1 = n_queued s - int (length (filter (\<lambda>i. q_c (pool s i) = c) (Q q)))"
    using purge_walk_chained [OF links_chained [OF lk] q, of "[]" "Q q" c None] by (auto simp: purges_def)
  let ?s = "s1\<lparr>qt := (qt s1)(q := tail_of (?Q q))\<rparr>"
  have "path (nexts s1) (qh s1 q) (?Q q) None" using s1(2) q by (auto simp: chained_def)
  then have "purge_queue c q s = Some ?s"
    by (simp add: purge_queue_def s1(1) list_tail_path)
  moreover have "links ?s (rev (filter (\<lambda>i. q_c (pool s i) = c) (Q q)) @ F) ?Q L"
    using s1(2,4) lk by (auto simp: links_def chained_def)
  moreover have "int (length (Q q)) = int (length (filter (\<lambda>i. q_c (pool s i) = c) (Q q))) +
      int (length (filter (\<lambda>i. q_c (pool s i) \<noteq> c) (Q q)))"
    using sum_length_filter_compl [of "\<lambda>i. q_c (pool s i) = c" "Q q"] by simp
  then have "n_queued ?s = int (length (?Q 0 @ ?Q 1 @ ?Q 2))"
    using s1(5) n q unfolding less_3 by auto
  moreover have "relinked s ?s"
    using s1(3) relinked_upd(2) by (rule relinked_trans)
  ultimately show ?thesis by (simp add: wp_simps sched_ok_def)
qed

section \<open>The contract of the request queues\<close>

text \<open>
  What the dispatcher relies on: \<open>rel s F Q L\<close> is the list view of a state, \<open>next_item\<close> takes
  the item the policy \<open>pick_spec\<close> selects, \<open>release\<close> returns an executed item.
\<close>

locale work_queue =
  fixes rel :: "'s \<Rightarrow> nat list \<Rightarrow> (nat \<Rightarrow> nat list) \<Rightarrow> nat list \<Rightarrow> bool"
    and eligible :: "'s \<Rightarrow> nat \<Rightarrow> bool"
    and next_item :: "'s \<Rightarrow> (nat \<times> 's) option option"
    and release :: "nat \<Rightarrow> 's \<Rightarrow> 's"
    and capacity :: nat
  assumes rel_count: "rel s F Q L \<Longrightarrow>
      length F + length (Q 0) + length (Q 1) + length (Q 2) + length L = capacity"
    and next_item_holds: "rel s F Q L \<Longrightarrow> holds (next_item s) (\<lambda>r.
      case pick_spec (eligible s) Q [0, 1, 2] of
        None \<Rightarrow> r = None
      | Some (q, it) \<Rightarrow> \<exists>s'. r = Some (it, s') \<and> rel s' F (Q(q := remove1 it (Q q))) (it # L))"
    and release_rel: "rel s F Q (it # L) \<Longrightarrow> rel (release it s) (it # F) Q L"
begin

lemma next_item_NoneD:
  assumes "rel s F Q L" and "next_item s = Some None"
  shows "\<forall>q < 3. \<forall>i \<in> set (Q q). \<not> eligible s i"
proof -
  from next_item_holds [OF assms(1)] assms(2) have "pick_spec (eligible s) Q [0, 1, 2] = None"
    by (auto simp: wp_simps split: option.splits)
  then show ?thesis unfolding pick_spec_None by (auto simp: less_3)
qed

lemma next_item_SomeD:
  assumes "rel s F Q L" and "next_item s = Some (Some (it, s'))"
  obtains q where "q < 3" and "it \<in> set (Q q)" and "eligible s it"
    and "pick_spec (eligible s) Q [0, 1, 2] = Some (q, it)"
    and "rel s' F (Q(q := remove1 it (Q q))) (it # L)"
proof -
  from next_item_holds [OF assms(1)] assms(2) obtain q where
    p: "pick_spec (eligible s) Q [0, 1, 2] = Some (q, it)"
    and r: "rel s' F (Q(q := remove1 it (Q q))) (it # L)"
    by (auto simp: wp_simps split: option.splits)
  from pick_spec_mem [OF p] have "q < 3" "it \<in> set (Q q)" "eligible s it" by auto
  with p r that show ?thesis by blast
qed

lemma next_item_defined: "rel s F Q L \<Longrightarrow> next_item s \<noteq> None"
  using next_item_holds [of s F Q L] by (auto simp: holds_iff)

text \<open>No queue ever holds more than the pool; a dequeue makes the queues one shorter.\<close>

lemma queued_le: "rel s F Q L \<Longrightarrow> length (Q 0) + length (Q 1) + length (Q 2) \<le> capacity"
  using rel_count [of s F Q L] by simp

lemma next_item_shrinks:
  assumes "rel s F Q L" and "next_item s = Some (Some (it, s'))" and "rel s' F' Q' L'"
    and "length F' = length F" and "length L' = Suc (length L)"
  shows "Suc (length (Q' 0) + length (Q' 1) + length (Q' 2)) = length (Q 0) + length (Q 1) + length (Q 2)"
  using rel_count [OF assms(1)] rel_count [OF assms(3)] assms(4,5) by simp

end

lemma length_split3:
  fixes Q :: "nat \<Rightarrow> nat list"
  assumes "q < 3" and "it \<in> set (Q q)"
  shows "Suc (length ((Q(q := remove1 it (Q q))) 0 @ (Q(q := remove1 it (Q q))) 1 @ (Q(q := remove1 it (Q q))) 2)) =
     length (Q 0 @ Q 1 @ Q 2)"
proof -
  have "Suc (length (remove1 it (Q q))) = length (Q q)"
    using assms(2) length_pos_if_in_set [of it "Q q"] by (simp add: length_remove1)
  with assms(1) show ?thesis unfolding less_3 by auto
qed

lemma dequeue_holds:
  assumes "sched_ok s F Q L"
  shows "holds (dequeue s) (\<lambda>r. case pick_spec (item_eligible s) Q [0, 1, 2] of
      None \<Rightarrow> r = None
    | Some (q, it) \<Rightarrow> \<exists>s'. r = Some (it, s') \<and> sched_ok s' F (Q(q := remove1 it (Q q))) (it # L) \<and>
        relinked s s')"
proof -
  from assms have l: "links s F Q L" and n: "n_queued s = int (length (Q 0 @ Q 1 @ Q 2))"
    by (auto simp: sched_ok_def)
  have h: "holds (pick s) (\<lambda>r. case pick_spec (item_eligible s) Q [0, 1, 2] of
      None \<Rightarrow> r = None
    | Some (q, it) \<Rightarrow> \<exists>s'. r = Some (it, s') \<and> links s' F (Q(q := remove1 it (Q q))) (it # L) \<and>
        relinked s s' \<and> n_queued s' = n_queued s)"
    unfolding pick_def by (rule pick_from_holds [OF l]) simp
  show ?thesis
  proof (cases "pick_spec (item_eligible s) Q [0, 1, 2]")
    case None
    with h show ?thesis by (auto simp: dequeue_def wp_simps holds_iff)
  next
    case (Some x)
    then obtain q it where x: "pick_spec (item_eligible s) Q [0, 1, 2] = Some (q, it)" by (cases x) auto
    with h obtain s' where s': "pick s = Some (Some (it, s'))"
      "links s' F (Q(q := remove1 it (Q q))) (it # L)" "relinked s s'" "n_queued s' = n_queued s"
      by (auto simp: holds_iff)
    let ?s = "s'\<lparr>n_queued := n_queued s' - 1\<rparr>"
    have "links ?s F (Q(q := remove1 it (Q q))) (it # L)"
      using s'(2) by (simp add: links_def chained_def)
    moreover from pick_spec_mem [OF x] have "q < 3" "it \<in> set (Q q)" by auto
    have nq: "n_queued ?s = n_queued s' - 1" by simp
    from length_split3 [where Q = Q, OF \<open>q < 3\<close> \<open>it \<in> set (Q q)\<close>] have "n_queued ?s = int (length ((Q(q := remove1 it (Q q))) 0 @
        (Q(q := remove1 it (Q q))) 1 @ (Q(q := remove1 it (Q q))) 2))"
      unfolding nq using s'(4) n by linarith
    ultimately have "sched_ok ?s F (Q(q := remove1 it (Q q))) (it # L)" by (simp add: sched_ok_def)
    moreover have "relinked s ?s" using s'(3) relinked_upd(4) by (rule relinked_trans)
    moreover have "dequeue s = Some (Some (it, ?s))" by (simp add: dequeue_def s'(1))
    ultimately show ?thesis using x by (simp add: wp_simps)
  qed
qed

lemma sched_ok_count:
  "sched_ok s F Q L \<Longrightarrow> length F + length (Q 0) + length (Q 1) + length (Q 2) + length L = MAX_QITEMS"
  using chained_count [OF links_chained, of s F Q L] by (simp add: sched_ok_def)

lemma free_item_sched_ok: "sched_ok s F Q (it # L) \<Longrightarrow> sched_ok (free_item it s) (it # F) Q L"
  by (auto simp: sched_ok_def free_item_links)

interpretation wq: work_queue sched_ok item_eligible dequeue free_item MAX_QITEMS
proof unfold_locales
  fix s :: "'a daemon" and F Q L
  assume s: "sched_ok s F Q L"
  show "holds (dequeue s) (\<lambda>r. case pick_spec (item_eligible s) Q [0, 1, 2] of None \<Rightarrow> r = None
      | Some (q, it) \<Rightarrow> \<exists>s'. r = Some (it, s') \<and> sched_ok s' F (Q(q := remove1 it (Q q))) (it # L))"
    by (rule holds_mono [OF dequeue_holds [OF s]]) (auto split: option.splits)
qed (blast intro: sched_ok_count free_item_sched_ok)+

section \<open>What sending and queueing change\<close>

definition resp_msg :: "spiproxy_hdr \<Rightarrow> spiproxy_status \<Rightarrow> u8 list \<Rightarrow> u8 list" where
  "resp_msg req status body =
     enc_hdr \<lparr>h_ver = SPIPROXY_VER, h_type = h_type req OR SPIPROXY_RESP,
              h_flags = status_code status, h_seq = h_seq req, h_len = of_nat (length body)\<rparr> @ body"

text \<open>
  \<open>run_frame\<close>: the links of the queues, the owner and header of every item, the client slots
  and the configuration are as before. Every handler works inside this frame.
\<close>

definition tags_of :: "'w daemon \<Rightarrow> nat \<Rightarrow> nat \<times> spiproxy_hdr" where
  "tags_of s i = (q_c (pool s i), q_hdr (pool s i))"

definition run_frame :: "'w daemon \<Rightarrow> 'w daemon \<Rightarrow> bool" where
  "run_frame s s' \<longleftrightarrow> link_of s' = link_of s \<and> tags_of s' = tags_of s \<and> slots_of s' = slots_of s \<and>
     conf_of s' = conf_of s \<and> stop s' = stop s"

lemma run_frame_refl [simp, intro]: "run_frame s s"
  by (simp add: run_frame_def)

lemma run_frame_trans [trans]: "run_frame s s' \<Longrightarrow> run_frame s' s'' \<Longrightarrow> run_frame s s''"
  by (simp add: run_frame_def)

lemma io_run_frame: "io_frame s s' \<Longrightarrow> run_frame s s'"
  by (simp add: io_frame_iff run_frame_def link_of_def tags_of_def fun_eq_iff group_defs)

lemma run_frame_sched_ok: "run_frame s s' \<Longrightarrow> sched_ok s' F Q L = sched_ok s F Q L"
  by (rule sched_ok_cong) (simp add: run_frame_def)

lemma slot_of_n_err [simp]: "slot_of (c\<lparr>c_n_err := x\<rparr>) = slot_of c"
  and slot_of_n_ops [simp]: "slot_of (c\<lparr>c_n_ops := x\<rparr>) = slot_of c"
  and slot_of_n_msgs [simp]: "slot_of (c\<lparr>c_n_msgs := x\<rparr>) = slot_of c"
  by (simp_all add: slot_of_def)

lemma send_resp_holds:
  assumes "length body \<le> SPIPROXY_MSG_MAX"
  shows "holds (send_resp B c req status body s) (\<lambda>s'.
     sent s' = sent s @ [(c_fd (cl s c), resp_msg req status body)] \<and> run_frame s s' \<and>
     claim_of s' = claim_of s \<and> mb_inflight s' = mb_inflight s \<and> pool s' = pool s \<and>
     lctx_tag s' = lctx_tag s)"
proof -
  let ?m = "resp_msg req status body" and ?fd = "c_fd (cl s c)"
  obtain rc w where k: "k_send (b_kernel B) ?fd ?m (world s) = (rc, w)" by fastforce
  define s1 where "s1 = s\<lparr>world := w, sent := sent s @ [(?fd, ?m)]\<rparr>"
  define s2 where "s2 = (if rc < 0 then s1\<lparr>cl := (cl s1)(c := (cl s1 c)\<lparr>c_n_err := c_n_err (cl s1 c) + 1\<rparr>)\<rparr> else s1)"
  have f: "run_frame s s2" "claim_of s2 = claim_of s" "mb_inflight s2 = mb_inflight s"
    "pool s2 = pool s" "sent s2 = sent s @ [(?fd, ?m)]" "lctx_tag s2 = lctx_tag s"
    by (simp_all add: s2_def s1_def run_frame_def link_of_def tags_of_def fun_eq_iff conf_of_def
        slots_of_def claim_of_def)
  have e: "\<exists>t. send_resp B c req status body s = Some (log_debug (b_kernel B) t s2)"
    using assms k by (auto simp: send_resp_def Let_def resp_msg_def s2_def s1_def)
  have "run_frame s (log_debug (b_kernel B) t s2)" for t
    using f(1) io_run_frame [OF log_trace_io] by (rule run_frame_trans)
  with e f show ?thesis by (auto simp: wp_simps claim_of_def)
qed

lemma prio_queue_less [simp]: "prio_queue f < 3"
  by (simp add: prio_queue_def)

lemma enqueue_full: "freel s = None \<Longrightarrow> enqueue B c h body s = send_resp B c h SPIPROXY_EBUSY [] s"
  by (simp add: enqueue_def)

text \<open>The item \<^verbatim>\<open>enqueue\<close> takes off the free list, filled in; it is then logged and linked.\<close>

definition fill_item :: "nat \<Rightarrow> nat \<Rightarrow> spiproxy_hdr \<Rightarrow> u8 list \<Rightarrow> 'w daemon \<Rightarrow> 'w daemon" where
  "fill_item it c h body s =
     s\<lparr>freel := q_next (pool s it),
       pool := (pool s)(it := (pool s it)\<lparr>q_next := None, q_c := c, q_hdr := h, q_body := mem_write 0 body (q_body (pool s it))\<rparr>)\<rparr>"

lemma enqueue_shape:
  assumes "freel s = Some it" and "unat (h_len h) = length body" and "length body \<le> SPIPROXY_MSG_MAX"
  obtains s1 where "io_frame (fill_item it c h body s) s1"
    and "enqueue B c h body s = Some ((link_tail (prio_queue (h_flags h)) it s1)\<lparr>n_queued := n_queued s1 + 1\<rparr>)"
proof -
  let ?p = "(pool s it)\<lparr>q_next := None, q_c := c, q_hdr := h\<rparr>"
  let ?s = "s\<lparr>freel := q_next (pool s it), pool := (pool s)(it := ?p)\<rparr>"
  obtain t where e: "enqueue B c h body s = Some ((link_tail (prio_queue (h_flags h)) it
      ((log_debug (b_kernel B) t ?s)\<lparr>pool := (pool ?s)(it := ?p\<lparr>q_body := mem_write 0 body (q_body ?p)\<rparr>)\<rparr>))
      \<lparr>n_queued := n_queued s + 1\<rparr>)"
    using assms by (auto simp: enqueue_def Let_def)
  have "io_frame (fill_item it c h body s)
      ((log_debug (b_kernel B) t ?s)\<lparr>pool := (pool ?s)(it := ?p\<lparr>q_body := mem_write 0 body (q_body ?p)\<rparr>)\<rparr>)"
    by (simp add: io_frame_iff fill_item_def)
  from that [OF this] show thesis using e by simp
qed

lemma enqueue_links:
  assumes ok: "sched_ok s (it # F) Q L"
    and len: "unat (h_len h) = length body" "length body \<le> SPIPROXY_MSG_MAX"
  shows "holds (enqueue B c h body s) (\<lambda>s'.
     sched_ok s' F (Q(prio_queue (h_flags h) := Q (prio_queue (h_flags h)) @ [it])) L \<and>
     tags_of s' = (tags_of s)(it := (c, h)) \<and> mem_read (q_body (pool s' it)) 0 (length body) = body \<and>
     slots_of s' = slots_of s \<and> conf_of s' = conf_of s \<and> claim_of s' = claim_of s \<and>
     mb_inflight s' = mb_inflight s \<and> sent s' = sent s \<and> stop s' = stop s \<and> cl s' = cl s \<and>
     (\<forall>j. j \<noteq> it \<longrightarrow> q_body (pool s' j) = q_body (pool s j)))"
proof -
  let ?q = "prio_queue (h_flags h)" and ?f = "fill_item it c h body s"
  from ok have l: "links s (it # F) Q L" and n: "n_queued s = int (length (Q 0 @ Q 1 @ Q 2))"
    by (auto simp: sched_ok_def)
  then have "freel s = Some it" by (simp add: links_def chained_def)
  then obtain s1 where io: "io_frame ?f s1"
    and e: "enqueue B c h body s = Some ((link_tail ?q it s1)\<lparr>n_queued := n_queued s1 + 1\<rparr>)"
    using enqueue_shape [OF _ len] by metis
  let ?s' = "(link_tail ?q it s1)\<lparr>n_queued := n_queued s1 + 1\<rparr>"
  have "links ?f F Q (it # L)" unfolding fill_item_def by (rule alloc_links [OF l]) simp
  moreover have "link_of s1 = link_of ?f" using io by (simp add: io_frame_iff link_of_def)
  ultimately have "links s1 F Q (it # L)" using links_cong by blast
  then have "links (link_tail ?q it s1) F (Q(?q := Q ?q @ [it])) L"
    by (rule link_tail_links) (use io in \<open>simp_all add: io_frame_iff fill_item_def\<close>)
  moreover have "n_queued s1 + 1 = int (length ((Q(?q := Q ?q @ [it])) 0 @ (Q(?q := Q ?q @ [it])) 1 @ (Q(?q := Q ?q @ [it])) 2))"
    using prio_queue_less [of "h_flags h"] n io unfolding less_3 by (auto simp: io_frame_iff fill_item_def)
  ultimately have "sched_ok ?s' F (Q(?q := Q ?q @ [it])) L" by (simp add: sched_ok_def links_def chained_def)
  moreover obtain h' t' p' f' n' where
    r: "link_tail ?q it s1 = s1\<lparr>qh := h', qt := t', pool := p', freel := f', n_queued := n'\<rparr>"
    and i: "item_of (link_tail ?q it s1) = item_of s1"
    using link_tail_relinked by (rule relinkedE)
  have pl: "q_c (pool ?s' j) = q_c (pool ?f j)" "q_hdr (pool ?s' j) = q_hdr (pool ?f j)"
    "q_body (pool ?s' j) = q_body (pool ?f j)" for j
    using fun_cong [OF i, of j] io by (simp_all add: item_of_def io_frame_iff)
  have "tags_of ?s' = (tags_of s)(it := (c, h))"
    by (rule ext) (simp only: tags_of_def pl, simp add: tags_of_def fill_item_def)
  moreover have "slots_of ?s' = slots_of s" "conf_of ?s' = conf_of s" "claim_of ?s' = claim_of s"
    "mb_inflight ?s' = mb_inflight s" "sent ?s' = sent s" "stop ?s' = stop s" "cl ?s' = cl s"
    unfolding r using io by (simp_all add: io_frame_iff fill_item_def group_defs)
  ultimately show ?thesis unfolding e holds_Some pl by (simp add: fill_item_def)
qed

end
