(* ===== verification/Handlers.thy ===== *)
theory Handlers
  imports Queue_Heap
begin

text \<open>
  The cases of \<^verbatim>\<open>exec_item\<close> that run to completion without yielding: READ and WRITE, BATCH,
  CLAIM, RELEASE, STATS, TRACE, RESET; and \<open>claim_end\<close>. The mailbox case is in the theories
  Mailbox and Dispatch. A request body is decoded in place from the item's buffer and results
  are written back into it, as the casts of the source do.
\<close>

section \<open>Claims\<close>

fun cleanup_loop :: "'w build \<Rightarrow> nat list \<Rightarrow> 'w daemon \<Rightarrow> 'w daemon option" where
  "cleanup_loop B [] s = Some s"
| "cleanup_loop B (i # is) s =
     do {
       guard (i < SPIPROXY_BATCH_MAX);
       (st, p, s) \<leftarrow> exec_op B None (claim_cleanup s i) s;
       cleanup_loop B is (s\<lparr>claim_cleanup := (claim_cleanup s)(i := p)\<rparr>)
     }"

definition claim_end :: "'w build \<Rightarrow> bool \<Rightarrow> 'w daemon \<Rightarrow> 'w daemon option" where
  "claim_end B abnormal s =
     do {
       let (i, comm) = (case claim_owner s of
                          Some c \<Rightarrow> (c_id (cl s c), c_comm (cl s c)) | None \<Rightarrow> (0, ''?''));
       let s = log_debug (b_kernel B)
         (''C'' @ pu i @ ''('' @ comm @ '') CLAIM end '' @
          (if abnormal then ''ABNORMAL'' else ''normal'') @
          (if abnormal \<and> claim_ncleanup s \<noteq> 0 then '' (running cleanup ops)'' else '''')) s;
       s \<leftarrow> (if abnormal \<and> claim_ncleanup s \<noteq> 0 then do {
                let s = log_warn (b_kernel B)
                  (''claim by client '' @ pu i @ '' ended abnormally: running '' @
                   show_dec (claim_ncleanup s) @ '' cleanup ops'') s;
                let s = s\<lparr>lctx_cid := i, lctx_comm := comm, lctx_seq := 0, lctx_tag := ''cleanup''\<rparr>;
                s \<leftarrow> cleanup_loop B [0..<claim_ncleanup s] s;
                Some (s\<lparr>lctx_tag := ''''\<rparr>)
              }
              else Some s);
       Some (s\<lparr>claim_owner := None, claim_ncleanup := 0, claim_deadline := 0\<rparr>)
     }"

section \<open>Access to the item's buffer\<close>

definition body_len :: "nat \<Rightarrow> 'w daemon \<Rightarrow> nat" where
  "body_len it s = unat (h_len (q_hdr (pool s it)))"

definition read_body :: "nat \<Rightarrow> nat \<Rightarrow> nat \<Rightarrow> 'w daemon \<Rightarrow> u8 list" where
  "read_body it off n s = mem_read (q_body (pool s it)) off n"

definition write_body :: "nat \<Rightarrow> nat \<Rightarrow> u8 list \<Rightarrow> 'w daemon \<Rightarrow> 'w daemon" where
  "write_body it off bs s =
     s\<lparr>pool := (pool s)(it := (pool s it)\<lparr>q_body := mem_write off bs (q_body (pool s it))\<rparr>)\<rparr>"

definition add_n_ops :: "nat \<Rightarrow> nat \<Rightarrow> 'w daemon \<Rightarrow> 'w daemon" where
  "add_n_ops c k s = s\<lparr>cl := (cl s)(c := (cl s c)\<lparr>c_n_ops := c_n_ops (cl s c) + of_nat k\<rparr>)\<rparr>"

section \<open>Register requests\<close>

definition exec_read_write :: "'w build \<Rightarrow> bool \<Rightarrow> nat \<Rightarrow> 'w daemon \<Rightarrow> 'w daemon option" where
  "exec_read_write B wr it s =
     (let c = q_c (pool s it); h = q_hdr (pool s it)
      in if body_len it s \<noteq> sizeof_op then send_resp B c h SPIPROXY_EINVAL [] s
         else do {
           let p = (dec_op (read_body it 0 sizeof_op s))\<lparr>o_write := of_bool wr\<rparr>;
           (st, p, s) \<leftarrow> exec_op B (Some c) p s;
           let s = write_body it 0 (enc_op p) s;
           let s = add_n_ops c 1 s;
           send_resp B c h st (read_body it 0 sizeof_op s) s
         })"

fun batch_loop ::
    "'w build \<Rightarrow> nat \<Rightarrow> nat list \<Rightarrow> nat \<Rightarrow> 'w daemon \<Rightarrow> (spiproxy_status \<times> nat \<times> 'w daemon) option" where
  "batch_loop B it [] k s = Some (SPIPROXY_OK, k, s)"
| "batch_loop B it (i # is) k s =
     do {
       guard (i * sizeof_op + sizeof_op \<le> SPIPROXY_MSG_MAX);
       (st, p, s) \<leftarrow> exec_op B (Some (q_c (pool s it))) (dec_op (read_body it (i * sizeof_op) sizeof_op s)) s;
       let s = write_body it (i * sizeof_op) (enc_op p) s;
       if st = SPIPROXY_OK then batch_loop B it is (Suc k) s else Some (st, Suc k, s)
     }"

definition exec_batch :: "'w build \<Rightarrow> nat \<Rightarrow> 'w daemon \<Rightarrow> 'w daemon option" where
  "exec_batch B it s =
     (let c = q_c (pool s it); h = q_hdr (pool s it); n = body_len it s div sizeof_op
      in if n < 1 \<or> SPIPROXY_BATCH_MAX < n \<or> body_len it s mod sizeof_op \<noteq> 0
         then send_resp B c h SPIPROXY_EINVAL [] s
         else do {
           (st, k, s) \<leftarrow> batch_loop B it [0..<n] 0 s;
           let s = add_n_ops c k s;
           send_resp B c h st (read_body it 0 (body_len it s) s) s
         })"

section \<open>Claim requests\<close>

definition exec_claim :: "'w build \<Rightarrow> nat \<Rightarrow> 'w daemon \<Rightarrow> 'w daemon option" where
  "exec_claim B it s =
     (let c = q_c (pool s it); h = q_hdr (pool s it);
          rq = dec_claim (read_body it 0 sizeof_claim s);
          n = unat (cl_ncleanup rq)
      in if body_len it s < sizeof_claim \<or> SPIPROXY_BATCH_MAX < n \<or>
            body_len it s \<noteq> sizeof_claim + n * sizeof_op
         then send_resp B c h SPIPROXY_EINVAL [] s
         else if claim_owner s \<noteq> None \<and> claim_owner s \<noteq> Some c
         then send_resp B c h SPIPROXY_EBUSY [] s
         else do {
           let s = s\<lparr>claim_owner := Some c\<rparr>;
           let s = log_debug (b_kernel B)
             (''C'' @ pu (c_id (cl s c)) @ ''('' @ c_comm (cl s c) @ '') seq='' @ pu (h_seq h) @
              '' CLAIM grant max_ms='' @ pu (cl_max_ms rq) @ '' ncleanup='' @ pu (cl_ncleanup rq)) s;
           let (t, s) = now_us (b_kernel B) s;
           let s = s\<lparr>claim_deadline := t + ucast (cl_max_ms rq) * 1000, claim_ncleanup := n\<rparr>;
           guard (n \<le> SPIPROXY_BATCH_MAX);
           let s = s\<lparr>claim_cleanup :=
             (\<lambda>i. if i < n then dec_op (read_body it (sizeof_claim + i * sizeof_op) sizeof_op s)
                  else claim_cleanup s i)\<rparr>;
           send_resp B c h SPIPROXY_OK [] s
         })"

definition exec_release :: "'w build \<Rightarrow> nat \<Rightarrow> 'w daemon \<Rightarrow> 'w daemon option" where
  "exec_release B it s =
     (let c = q_c (pool s it); h = q_hdr (pool s it)
      in do {
           s \<leftarrow> (if claim_owner s = Some c then claim_end B False s else Some s);
           send_resp B c h SPIPROXY_OK [] s
         })"

section \<open>Diagnostics\<close>

text \<open>
  The text buffer \<^verbatim>\<open>char txt[SPIPROXY_MSG_MAX]\<close>: \<open>txt_append\<close> is one
  \<^verbatim>\<open>len += snprintf(txt + len, sizeof(txt) - len, ...)\<close>, defined only while \<^verbatim>\<open>txt + len\<close> is
  inside the buffer; \<open>txt_bytes\<close> are the bytes \<^verbatim>\<open>send_resp\<close> copies out of it.
\<close>

definition txt_append :: "string \<Rightarrow> string \<Rightarrow> string option" where
  "txt_append t u = do { guard (length t \<le> SPIPROXY_MSG_MAX); Some (t @ u) }"

definition txt_bytes :: "string \<Rightarrow> u8 list" where
  "txt_bytes t =
     bytes_of_string (snprintf SPIPROXY_MSG_MAX t) @
     replicate (length t - length (snprintf SPIPROXY_MSG_MAX t)) 0"

definition stats_line :: "'w daemon \<Rightarrow> string" where
  "stats_line s =
     ''dev='' @ dev s @ '' freq='' @ show_int (freq s) @ '' pad='' @ show_dec (pad s) @ '' rst='' @
     (if 0 \<le> rst_fd s then (case rst_line s of Some l \<Rightarrow> l | None \<Rightarrow> ''on'') else ''off'') @
     '' reads='' @ pu (n_reads s) @ '' writes='' @ pu (n_writes s) @ '' io_err='' @ pu (n_io_err s) @
     '' warns='' @ pu (n_warns s) @ '' queued='' @ show_int (n_queued s) @ '' claim='' @
     (case claim_owner s of Some c \<Rightarrow> pu (c_id (cl s c)) | None \<Rightarrow> ''0'') @ '' mb_inflight='' @
     (if mb_inflight s then ''1'' else ''0'') @ [CHR 0x0A]"

definition client_line :: "client \<Rightarrow> string" where
  "client_line c =
     ''client '' @ pu (c_id c) @ ''('' @ c_comm c @ '') pid '' @ show_int (c_pid c) @ '' msgs='' @
     pu (c_n_msgs c) @ '' ops='' @ pu (c_n_ops c) @ '' err='' @ pu (c_n_err c) @ [CHR 0x0A]"

fun stats_loop :: "'w daemon \<Rightarrow> nat list \<Rightarrow> string \<Rightarrow> string option" where
  "stats_loop s [] t = Some t"
| "stats_loop s (i # is) t =
     (if c_used (cl s i) then do { t \<leftarrow> txt_append t (client_line (cl s i)); stats_loop s is t }
      else stats_loop s is t)"

definition exec_stats :: "'w build \<Rightarrow> nat \<Rightarrow> 'w daemon \<Rightarrow> 'w daemon option" where
  "exec_stats B it s =
     do {
       t \<leftarrow> txt_append [] (stats_line s);
       t \<leftarrow> stats_loop s [0..<MAX_CLIENTS] t;
       send_resp B (q_c (pool s it)) (q_hdr (pool s it)) SPIPROXY_OK (txt_bytes t) s
     }"

definition trace_line :: "trace_ent \<Rightarrow> string" where
  "trace_line e =
     pu (te_ts e) @ '' c'' @ pu (te_cid e) @ '' '' @ (if te_write e \<noteq> 0 then ''W'' else ''R'') @ '' '' @
     pu (te_slice e) @ '' '' @ px2 (te_mmd e) @ '' '' @ px4 (te_reg e) @ '' '' @ px8 (te_val e) @ [CHR 0x0A]"

function trace_loop :: "'w daemon \<Rightarrow> u32 \<Rightarrow> string \<Rightarrow> string option" where
  "trace_loop s w t =
     (if w < ring_w s \<and> length t < SPIPROXY_MSG_MAX - TRACE_LINE_MAX then do {
        t \<leftarrow> txt_append t (trace_line (ring s (unat w mod TRACE_RING)));
        trace_loop s (w + 1) t
      }
      else Some t)"
  by pat_completeness auto
termination
proof (relation "measure (\<lambda>(s, w, t). unat (ring_w s) - unat w)")
  fix s :: "'w daemon" and w :: u32 and t x
  assume "w < ring_w s \<and> length t < SPIPROXY_MSG_MAX - TRACE_LINE_MAX"
  then have lt: "unat w < unat (ring_w s)" by (simp add: word_less_nat_alt)
  with unat_bound [of "ring_w s"] have "unat (w + 1) = unat w + 1"
    by (simp add: unat_word_ariths)
  with lt show "((s, w + 1, x), (s, w, t)) \<in> measure (\<lambda>(s, w, t). unat (ring_w s) - unat w)"
    by simp
qed simp

declare trace_loop.simps [simp del]

definition exec_trace :: "'w build \<Rightarrow> nat \<Rightarrow> 'w daemon \<Rightarrow> 'w daemon option" where
  "exec_trace B it s =
     do {
       let start = (if of_nat TRACE_TAIL_MAX < ring_w s then ring_w s - of_nat TRACE_TAIL_MAX else 0);
       t \<leftarrow> trace_loop s start [];
       send_resp B (q_c (pool s it)) (q_hdr (pool s it)) SPIPROXY_OK (txt_bytes t) s
     }"

section \<open>Reset\<close>

definition exec_reset :: "'w build \<Rightarrow> nat \<Rightarrow> 'w daemon \<Rightarrow> 'w daemon option" where
  "exec_reset B it s =
     (let c = q_c (pool s it); h = q_hdr (pool s it)
      in if body_len it s \<noteq> sizeof_reset then send_resp B c h SPIPROXY_EINVAL [] s
         else if rst_fd s < 0 then send_resp B c h SPIPROXY_ENOSYS [] s
         else do {
           let rq = dec_reset (read_body it 0 sizeof_reset s);
           let a = (if rs_assert_us rq \<noteq> 0 then rs_assert_us rq else RST_ASSERT_US);
           let d = (if rs_deassert_us rq \<noteq> 0 then rs_deassert_us rq else RST_DEASSERT_US);
           let s = s\<lparr>mb_inflight := False\<rparr>;
           let s = b_pulse_reset B a d s;
           let s = log_debug (b_kernel B)
             (''C'' @ pu (c_id (cl s c)) @ ''('' @ c_comm (cl s c) @ '') seq='' @ pu (h_seq h) @
              '' RESET hw assert='' @ pu a @ ''us deassert='' @ pu d @ ''us'') s;
           send_resp B c h SPIPROXY_OK [] s
         })"

section \<open>Frames of the handlers\<close>

text \<open>
  \<open>quiet\<close>: a stretch of a handler that sends nothing and changes neither the claim nor the
  mailbox flag, and writes to no item's buffer but its own (\<open>others\<close>). \<open>replied\<close>: a quiet
  stretch closed by one response to the item's client.
\<close>

definition others :: "nat \<Rightarrow> 'w daemon \<Rightarrow> 'w daemon \<Rightarrow> bool" where
  "others it s s' \<longleftrightarrow> (\<forall>j. j \<noteq> it \<longrightarrow> q_body (pool s' j) = q_body (pool s j))"

definition quiet :: "nat \<Rightarrow> 'w daemon \<Rightarrow> 'w daemon \<Rightarrow> bool" where
  "quiet it s s' \<longleftrightarrow> run_frame s s' \<and> others it s s' \<and> sent s' = sent s \<and> claim_of s' = claim_of s \<and>
     mb_inflight s' = mb_inflight s"

definition reply_of :: "nat \<Rightarrow> spiproxy_status \<Rightarrow> u8 list \<Rightarrow> 'w daemon \<Rightarrow> int \<times> u8 list" where
  "reply_of it st body s =
     (c_fd (cl s (q_c (pool s it))), resp_msg (q_hdr (pool s it)) st body)"

definition replied :: "nat \<Rightarrow> spiproxy_status \<Rightarrow> u8 list \<Rightarrow> 'w daemon \<Rightarrow> 'w daemon \<Rightarrow> bool" where
  "replied it st body s s' \<longleftrightarrow> run_frame s s' \<and> others it s s' \<and> sent s' = sent s @ [reply_of it st body s] \<and>
     claim_of s' = claim_of s \<and> mb_inflight s' = mb_inflight s"

lemma run_frame_upd [simp]:
  "run_frame s (s'\<lparr>claim_owner := v0\<rparr>) = run_frame s s'"
  "run_frame (s\<lparr>claim_owner := v0\<rparr>) s' = run_frame s s'"
  "run_frame s (s'\<lparr>claim_deadline := v1\<rparr>) = run_frame s s'"
  "run_frame (s\<lparr>claim_deadline := v1\<rparr>) s' = run_frame s s'"
  "run_frame s (s'\<lparr>claim_cleanup := v2\<rparr>) = run_frame s s'"
  "run_frame (s\<lparr>claim_cleanup := v2\<rparr>) s' = run_frame s s'"
  "run_frame s (s'\<lparr>claim_ncleanup := v3\<rparr>) = run_frame s s'"
  "run_frame (s\<lparr>claim_ncleanup := v3\<rparr>) s' = run_frame s s'"
  "run_frame s (s'\<lparr>mb_inflight := v4\<rparr>) = run_frame s s'"
  "run_frame (s\<lparr>mb_inflight := v4\<rparr>) s' = run_frame s s'"
  "run_frame s (s'\<lparr>lctx_cid := v5\<rparr>) = run_frame s s'"
  "run_frame (s\<lparr>lctx_cid := v5\<rparr>) s' = run_frame s s'"
  "run_frame s (s'\<lparr>lctx_comm := v6\<rparr>) = run_frame s s'"
  "run_frame (s\<lparr>lctx_comm := v6\<rparr>) s' = run_frame s s'"
  "run_frame s (s'\<lparr>lctx_seq := v7\<rparr>) = run_frame s s'"
  "run_frame (s\<lparr>lctx_seq := v7\<rparr>) s' = run_frame s s'"
  "run_frame s (s'\<lparr>lctx_tag := v8\<rparr>) = run_frame s s'"
  "run_frame (s\<lparr>lctx_tag := v8\<rparr>) s' = run_frame s s'"
  "run_frame s (s'\<lparr>world := v9\<rparr>) = run_frame s s'"
  "run_frame (s\<lparr>world := v9\<rparr>) s' = run_frame s s'"
  "run_frame s (s'\<lparr>sent := v10\<rparr>) = run_frame s s'"
  "run_frame (s\<lparr>sent := v10\<rparr>) s' = run_frame s s'"
  by (simp_all add: run_frame_def link_of_def tags_of_def fun_eq_iff group_defs)

lemma others_refl [simp, intro]: "others it s s"
  by (simp add: others_def)

lemma others_trans: "others it s s' \<Longrightarrow> others it s' s'' \<Longrightarrow> others it s s''"
  by (simp add: others_def)

lemma pool_others: "pool s' = pool s \<Longrightarrow> others it s s'"
  by (simp add: others_def)

lemma others_upd [simp]:
  "others it s (s'\<lparr>claim_owner := v0\<rparr>) = others it s s'"
  "others it (s\<lparr>claim_owner := v0\<rparr>) s' = others it s s'"
  "others it s (s'\<lparr>claim_deadline := v1\<rparr>) = others it s s'"
  "others it (s\<lparr>claim_deadline := v1\<rparr>) s' = others it s s'"
  "others it s (s'\<lparr>claim_cleanup := v2\<rparr>) = others it s s'"
  "others it (s\<lparr>claim_cleanup := v2\<rparr>) s' = others it s s'"
  "others it s (s'\<lparr>claim_ncleanup := v3\<rparr>) = others it s s'"
  "others it (s\<lparr>claim_ncleanup := v3\<rparr>) s' = others it s s'"
  "others it s (s'\<lparr>mb_inflight := v4\<rparr>) = others it s s'"
  "others it (s\<lparr>mb_inflight := v4\<rparr>) s' = others it s s'"
  "others it s (s'\<lparr>lctx_cid := v5\<rparr>) = others it s s'"
  "others it (s\<lparr>lctx_cid := v5\<rparr>) s' = others it s s'"
  "others it s (s'\<lparr>lctx_comm := v6\<rparr>) = others it s s'"
  "others it (s\<lparr>lctx_comm := v6\<rparr>) s' = others it s s'"
  "others it s (s'\<lparr>lctx_seq := v7\<rparr>) = others it s s'"
  "others it (s\<lparr>lctx_seq := v7\<rparr>) s' = others it s s'"
  "others it s (s'\<lparr>lctx_tag := v8\<rparr>) = others it s s'"
  "others it (s\<lparr>lctx_tag := v8\<rparr>) s' = others it s s'"
  "others it s (s'\<lparr>world := v9\<rparr>) = others it s s'"
  "others it (s\<lparr>world := v9\<rparr>) s' = others it s s'"
  "others it s (s'\<lparr>sent := v10\<rparr>) = others it s s'"
  "others it (s\<lparr>sent := v10\<rparr>) s' = others it s s'"
  by (simp_all add: others_def)

lemma quiet_upd [simp]:
  "quiet it s (s'\<lparr>lctx_cid := v0\<rparr>) = quiet it s s'"
  "quiet it (s\<lparr>lctx_cid := v0\<rparr>) s' = quiet it s s'"
  "quiet it s (s'\<lparr>lctx_comm := v1\<rparr>) = quiet it s s'"
  "quiet it (s\<lparr>lctx_comm := v1\<rparr>) s' = quiet it s s'"
  "quiet it s (s'\<lparr>lctx_seq := v2\<rparr>) = quiet it s s'"
  "quiet it (s\<lparr>lctx_seq := v2\<rparr>) s' = quiet it s s'"
  "quiet it s (s'\<lparr>lctx_tag := v3\<rparr>) = quiet it s s'"
  "quiet it (s\<lparr>lctx_tag := v3\<rparr>) s' = quiet it s s'"
  "quiet it s (s'\<lparr>world := v4\<rparr>) = quiet it s s'"
  "quiet it (s\<lparr>world := v4\<rparr>) s' = quiet it s s'"
  by (simp_all add: quiet_def claim_of_def)

lemma quiet_refl [simp, intro]: "quiet it s s"
  by (simp add: quiet_def)

lemma quiet_trans [trans]: "quiet it s s' \<Longrightarrow> quiet it s' s'' \<Longrightarrow> quiet it s s''"
  by (auto simp: quiet_def intro: run_frame_trans others_trans)

lemma io_quiet: "io_frame s s' \<Longrightarrow> quiet it s s'"
  by (simp add: quiet_def io_run_frame io_frame_groups) (simp add: io_frame_iff pool_others)

lemma write_body_quiet [simp, intro]: "quiet it s (write_body it off bs s)"
  by (simp add: quiet_def others_def write_body_def run_frame_def link_of_def tags_of_def fun_eq_iff
      conf_of_def slots_of_def claim_of_def)

lemma add_n_ops_quiet [simp, intro]: "quiet it s (add_n_ops c k s)"
  by (simp add: quiet_def others_def add_n_ops_def run_frame_def link_of_def tags_of_def fun_eq_iff
      conf_of_def slots_of_def claim_of_def)

lemma run_frame_tags:
  assumes "run_frame s s'"
  shows "q_c (pool s' i) = q_c (pool s i)" and "q_hdr (pool s' i) = q_hdr (pool s i)"
    and "body_len i s' = body_len i s"
proof -
  have "tags_of s' i = tags_of s i" using assms by (simp add: run_frame_def)
  then show "q_c (pool s' i) = q_c (pool s i)" and "q_hdr (pool s' i) = q_hdr (pool s i)"
    and "body_len i s' = body_len i s"
    by (simp_all add: tags_of_def body_len_def)
qed

lemma run_frame_slot:
  assumes "run_frame s s'"
  shows "c_fd (cl s' c) = c_fd (cl s c)" and "c_used (cl s' c) = c_used (cl s c)"
    and "c_id (cl s' c) = c_id (cl s c)" and "c_pid (cl s' c) = c_pid (cl s c)"
    and "c_comm (cl s' c) = c_comm (cl s c)"
proof -
  have "slot_of \<circ> cl s' = slot_of \<circ> cl s" using assms by (simp add: run_frame_def slots_of_def)
  then have "slot_of (cl s' c) = slot_of (cl s c)" by (metis comp_apply)
  then show "c_fd (cl s' c) = c_fd (cl s c)" and "c_used (cl s' c) = c_used (cl s c)"
    and "c_id (cl s' c) = c_id (cl s c)" and "c_pid (cl s' c) = c_pid (cl s c)"
    and "c_comm (cl s' c) = c_comm (cl s c)"
    by (simp_all add: slot_of_def)
qed

lemma quiet_run: "quiet it s s' \<Longrightarrow> run_frame s s'"
  by (simp add: quiet_def)

lemma replied_run: "replied it st body s s' \<Longrightarrow> run_frame s s'"
  by (simp add: replied_def)

lemma reply_of_cong: "run_frame s s' \<Longrightarrow> reply_of it st body s' = reply_of it st body s"
  by (simp add: reply_of_def run_frame_tags run_frame_slot)

lemma reply_holds:
  assumes q: "quiet it s s1" and len: "length body \<le> SPIPROXY_MSG_MAX"
  shows "holds (send_resp B (q_c (pool s it)) (q_hdr (pool s it)) st body s1) (replied it st body s)"
  by (rule holds_mono [OF send_resp_holds [OF len]])
    (use q in \<open>auto simp: replied_def quiet_def reply_of_def run_frame_slot
      intro: run_frame_trans others_trans pool_others\<close>)

lemma refuse_holds:
  "holds (send_resp B (q_c (pool s it)) (q_hdr (pool s it)) st [] s) (replied it st [] s)"
  by (rule reply_holds) simp_all

definition answers :: "nat \<Rightarrow> 'w daemon \<Rightarrow> 'w daemon \<Rightarrow> bool" where
  "answers it s s' \<longleftrightarrow> run_frame s s' \<and> others it s s' \<and> (\<exists>st body. sent s' = sent s @ [reply_of it st body s]) \<and>
     (mb_inflight s' = mb_inflight s \<or> 0 \<le> rst_fd s \<and> \<not> mb_inflight s') \<and>
     (claim_ncleanup s \<le> SPIPROXY_BATCH_MAX \<longrightarrow> claim_ncleanup s' \<le> SPIPROXY_BATCH_MAX) \<and>
     claim_owner s' \<in> {None, claim_owner s, Some (q_c (pool s it))} \<and>
     (claim_owner s \<noteq> None \<and> claim_owner s \<noteq> Some (q_c (pool s it)) \<longrightarrow> claim_of s' = claim_of s)"

lemma replied_answers: "replied it st body s s' \<Longrightarrow> answers it s s'"
  by (auto simp: replied_def answers_def claim_of_def)

context spi_backend
begin

lemma exec_op_quiet: "holds (exec_op B c p s) (\<lambda>(st, p', s'). quiet it s s')"
  by (rule holds_mono [OF exec_op_holds]) (auto intro: io_quiet)

lemma exec_read_write_holds: "holds (exec_read_write B wr it s) (answers it s)"
proof (cases "body_len it s = sizeof_op")
  case False
  then show ?thesis
    using holds_mono [OF refuse_holds replied_answers]
    by (simp add: exec_read_write_def)
next
  case True
  have reply: "holds (send_resp B (q_c (pool s it)) (q_hdr (pool s it)) st
      (read_body it 0 sizeof_op (add_n_ops c k (write_body it 0 (enc_op p) s1)))
      (add_n_ops c k (write_body it 0 (enc_op p) s1))) (answers it s)"
    if "quiet it s s1" for st c k p s1
    by (rule holds_mono [OF reply_holds replied_answers])
      (auto simp: read_body_def const_defs intro: quiet_trans [OF that] quiet_trans)
  show ?thesis
    using True
    by (auto simp: exec_read_write_def wp_simps Let_def intro!: holds_mono [OF exec_op_quiet] reply)
qed

lemma batch_loop_quiet:
  "\<forall>i \<in> set is. i < SPIPROXY_BATCH_MAX \<Longrightarrow>
   holds (batch_loop B it is k s) (\<lambda>(st, k', s'). quiet it s s')"
proof (induction "is" arbitrary: k s)
  case Nil
  then show ?case by (simp add: wp_simps)
next
  case (Cons i "is")
  then have g: "i * sizeof_op + sizeof_op \<le> SPIPROXY_MSG_MAX" by (simp add: const_defs)
  have step: "holds (batch_loop B it is k' s1) (\<lambda>(st, k', s'). quiet it s s')" if "quiet it s s1" for k' s1
    by (rule holds_mono [OF Cons.IH]) (use that Cons.prems in \<open>auto intro: quiet_trans\<close>)
  have wr: "quiet it s (write_body it (i * sizeof_op) (enc_op p) s1)" if "quiet it s s1" for p s1
    using that by (rule quiet_trans) simp
  show ?case
    by (auto simp: wp_simps g Let_def intro!: holds_mono [OF exec_op_quiet] wr step)
qed

lemma exec_batch_holds:
  assumes "body_len it s \<le> SPIPROXY_MSG_MAX"
  shows "holds (exec_batch B it s) (answers it s)"
proof -
  have reply: "holds (send_resp B (q_c (pool s it)) (q_hdr (pool s it)) st
      (read_body it 0 (body_len it (add_n_ops c k s1)) (add_n_ops c k s1))
      (add_n_ops c k s1)) (answers it s)"
    if "quiet it s s1" for st c k s1
  proof -
    have q: "quiet it s (add_n_ops c k s1)" using that by (rule quiet_trans) simp
    show ?thesis
      using assms run_frame_tags(3) [OF quiet_run [OF q]]
      by (intro holds_mono [OF reply_holds [OF q] replied_answers]) (simp_all add: read_body_def)
  qed
  show ?thesis
    by (auto simp: exec_batch_def wp_simps Let_def not_less
        intro!: holds_mono [OF batch_loop_quiet] reply holds_mono [OF refuse_holds replied_answers])
qed

text \<open>Ending a claim: the owner is cleared on every path, and nothing but cleanup ops run.\<close>

lemma cleanup_loop_holds:
  "\<forall>i \<in> set is. i < SPIPROXY_BATCH_MAX \<Longrightarrow>
   holds (cleanup_loop B is s) (\<lambda>s'. run_frame s s' \<and> pool s' = pool s \<and> sent s' = sent s \<and>
     mb_inflight s' = mb_inflight s \<and> claim_ncleanup s' = claim_ncleanup s)"
proof (induction "is" arbitrary: s)
  case Nil
  then show ?case by (simp add: wp_simps)
next
  case (Cons i "is")
  have "holds (cleanup_loop B is (s1\<lparr>claim_cleanup := x\<rparr>)) (\<lambda>s'. run_frame s s' \<and> pool s' = pool s \<and> sent s' = sent s \<and>
     mb_inflight s' = mb_inflight s \<and> claim_ncleanup s' = claim_ncleanup s)"
    if "io_frame s s1" for s1 x
    by (rule holds_mono [OF Cons.IH])
      (use Cons.prems that io_run_frame [OF that] in \<open>auto simp: io_frame_iff intro: run_frame_trans\<close>)
  with Cons.prems show ?case
    by (auto simp: wp_simps Let_def intro!: holds_mono [OF exec_op_holds])
qed

lemma claim_end_holds:
  assumes "claim_ncleanup s \<le> SPIPROXY_BATCH_MAX"
  shows "holds (claim_end B abnormal s) (\<lambda>s'. run_frame s s' \<and> pool s' = pool s \<and> sent s' = sent s \<and>
     mb_inflight s' = mb_inflight s \<and> claim_owner s' = None \<and> claim_ncleanup s' = 0)"
proof -
  have logs: "run_frame s (log_debug K t s)" "run_frame s (log_warn K u (log_debug K t s))" for K t u
    by (auto intro: io_run_frame io_frame_trans)
  have loop: "holds (cleanup_loop B [0..<claim_ncleanup s]
      ((log_warn K u (log_debug K t s))\<lparr>lctx_cid := a, lctx_comm := b, lctx_seq := d, lctx_tag := e\<rparr>))
      (\<lambda>s'. run_frame s s' \<and> pool s' = pool s \<and> sent s' = sent s \<and> mb_inflight s' = mb_inflight s)" for K t u a b d e
    by (rule holds_mono [OF cleanup_loop_holds])
      (use assms in \<open>auto intro: run_frame_trans [OF logs(2)]\<close>)
  show ?thesis
    by (auto simp: claim_end_def wp_simps Let_def logs split: option.splits
        intro!: holds_mono [OF loop])
qed

lemma exec_claim_holds: "holds (exec_claim B it s) (answers it s)"
proof -
  have reply: "holds (send_resp B (q_c (pool s it)) (q_hdr (pool s it)) SPIPROXY_OK [] s2) (answers it s)"
    if "claim_owner s = None \<or> claim_owner s = Some (q_c (pool s it))" "claim_ncleanup s2 \<le> SPIPROXY_BATCH_MAX"
      and "claim_owner s2 = Some (q_c (pool s it))"
      and "run_frame s s2" "pool s2 = pool s" "sent s2 = sent s" "mb_inflight s2 = mb_inflight s" for s2
    by (rule holds_mono [OF send_resp_holds])
      (use that in \<open>auto simp: answers_def reply_of_def claim_of_def run_frame_slot
        intro: run_frame_trans pool_others\<close>)
  have own: "run_frame s s1 \<and> pool s1 = pool s \<and> claim_owner s1 = x \<and> sent s1 = sent s \<and> mb_inflight s1 = mb_inflight s"
    if n: "now_us K (log_debug K t (s\<lparr>claim_owner := x\<rparr>)) = (a, s1)" for K t x a s1
    using io_run_frame [OF log_trace_io, of "s\<lparr>claim_owner := x\<rparr>" K t] io_run_frame [OF io_frame_now_us [OF n]]
      io_frameD [OF io_frame_now_us [OF n]]
    by (auto intro: run_frame_trans)
  show ?thesis
    by (auto simp: exec_claim_def wp_simps Let_def own split: prod.splits
        intro!: reply holds_mono [OF refuse_holds replied_answers])
qed

lemma exec_release_holds: "claim_ncleanup s \<le> SPIPROXY_BATCH_MAX \<Longrightarrow> holds (exec_release B it s) (answers it s)"
proof -
  assume n: "claim_ncleanup s \<le> SPIPROXY_BATCH_MAX"
  have "holds (send_resp B (q_c (pool s it)) (q_hdr (pool s it)) SPIPROXY_OK [] s2) (answers it s)"
    if "claim_owner s = Some (q_c (pool s it))" "claim_ncleanup s2 = 0"
      and "claim_owner s2 = None" and "run_frame s s2" "pool s2 = pool s" "sent s2 = sent s" "mb_inflight s2 = mb_inflight s" for s2
    by (rule holds_mono [OF send_resp_holds])
      (use that in \<open>auto simp: answers_def reply_of_def claim_of_def run_frame_slot
        intro: run_frame_trans pool_others\<close>)
  then show ?thesis
    by (auto simp: exec_release_def wp_simps Let_def
        intro!: holds_mono [OF claim_end_holds [OF n]] holds_mono [OF refuse_holds replied_answers])
qed

lemma exec_reset_holds: "holds (exec_reset B it s) (answers it s)"
proof -
  have "holds (send_resp B (q_c (pool s it)) (q_hdr (pool s it)) SPIPROXY_OK [] s2) (answers it s)"
    if "run_frame s s2" "pool s2 = pool s" "sent s2 = sent s" "\<not> mb_inflight s2" "claim_of s2 = claim_of s"
      "0 \<le> rst_fd s" for s2
    by (rule holds_mono [OF send_resp_holds])
      (use that in \<open>auto simp: answers_def reply_of_def claim_of_def run_frame_slot
        intro: run_frame_trans pool_others\<close>)
  moreover have "run_frame s (log_debug K t (b_pulse_reset B a d (s\<lparr>mb_inflight := False\<rparr>)))" for K t a d
    using io_run_frame [OF io_frame_trans [OF pulse_reset_io log_trace_io]] run_frame_upd by metis
  moreover have "io_frame (s\<lparr>mb_inflight := False\<rparr>) (b_pulse_reset B a d (s\<lparr>mb_inflight := False\<rparr>))" for a d
    by (rule pulse_reset_io)
  ultimately show ?thesis
    by (auto simp: exec_reset_def wp_simps Let_def io_frame_iff claim_of_def
        intro!: holds_mono [OF refuse_holds replied_answers])
qed

end

section \<open>Diagnostic texts fit their buffer\<close>

lemma txt_bytes_fits: "length t < SPIPROXY_MSG_MAX \<Longrightarrow> txt_bytes t = bytes_of_string t"
  by (simp add: txt_bytes_def snprintf_fits)

lemma length_txt_bytes [simp]: "length (txt_bytes t) = length t"
  by (simp add: txt_bytes_def snprintf_def)

lemma length_trace_line: "length (trace_line e) \<le> 56"
  using printf_lengths(4) [of "te_ts e"] printf_lengths(3) [of "te_cid e"]
    printf_lengths(1) [of "te_slice e"]
  by (simp add: trace_line_def length_hex_u8 length_hex_u16 length_hex_u32)

text \<open>The lines TRACE answers with: the last \<^const>\<open>TRACE_TAIL_MAX\<close> entries of the ring, oldest first.\<close>

definition trace_start :: "u32 \<Rightarrow> nat" where
  "trace_start w = unat w - TRACE_TAIL_MAX"

definition trace_text :: "'w daemon \<Rightarrow> string" where
  "trace_text s =
     concat (map (\<lambda>k. trace_line (ring s (k mod TRACE_RING))) [trace_start (ring_w s)..<unat (ring_w s)])"

lemma length_concat_le: "(\<And>x. x \<in> set xs \<Longrightarrow> length x \<le> k) \<Longrightarrow> length (concat xs) \<le> k * length xs"
  by (induction xs) (auto intro: add_mono)

lemma length_trace_text: "length (trace_text s) \<le> 56 * TRACE_TAIL_MAX"
proof -
  have "length (trace_text s) \<le> 56 * length [trace_start (ring_w s)..<unat (ring_w s)]"
    unfolding trace_text_def
    by (rule order_trans [OF length_concat_le [where k = 56]]) (auto simp: length_trace_line)
  also have "\<dots> \<le> 56 * TRACE_TAIL_MAX" by (simp add: trace_start_def)
  finally show ?thesis .
qed

lemma trace_loop_text:
  assumes "length t + 56 * (unat (ring_w s) - unat w) < SPIPROXY_MSG_MAX - TRACE_LINE_MAX"
  shows "trace_loop s w t = Some (t @ concat (map (\<lambda>k. trace_line (ring s (k mod TRACE_RING)))
    [unat w..<unat (ring_w s)]))"
  using assms
proof (induction "unat (ring_w s) - unat w" arbitrary: w t)
  case 0
  then show ?case by (subst trace_loop.simps) (simp add: word_less_nat_alt)
next
  case (Suc n)
  then have lt: "unat w < unat (ring_w s)" by simp
  with unat_bound [of "ring_w s"] have w1: "unat (w + 1) = Suc (unat w)"
    by (simp add: unat_word_ariths)
  let ?l = "trace_line (ring s (unat w mod TRACE_RING))"
  have len: "length (t @ ?l) + 56 * (unat (ring_w s) - unat (w + 1)) < SPIPROXY_MSG_MAX - TRACE_LINE_MAX"
    using Suc.prems lt w1 length_trace_line [of "ring s (unat w mod TRACE_RING)"] by simp
  have "trace_loop s (w + 1) (t @ ?l) = Some ((t @ ?l) @ concat (map (\<lambda>k. trace_line (ring s (k mod TRACE_RING)))
    [unat (w + 1)..<unat (ring_w s)]))"
    using Suc.hyps(2) w1 by (intro Suc.hyps(1) [OF _ len]) simp
  moreover have "length t < SPIPROXY_MSG_MAX - TRACE_LINE_MAX" "length t \<le> SPIPROXY_MSG_MAX"
    using Suc.prems by simp_all
  ultimately show ?case
    using lt w1 by (subst trace_loop.simps) (simp add: word_less_nat_alt txt_append_def upt_conv_Cons)
qed

lemma exec_trace_replied: "holds (exec_trace B it s) (replied it SPIPROXY_OK (bytes_of_string (trace_text s)) s)"
proof -
  define w where "w = (if of_nat TRACE_TAIL_MAX < ring_w s then ring_w s - of_nat TRACE_TAIL_MAX else 0)"
  have w: "unat w = trace_start (ring_w s)"
    by (auto simp: w_def trace_start_def const_defs word_less_nat_alt unat_sub not_less word_le_nat_alt)
  have "length [] + 56 * (unat (ring_w s) - unat w) < SPIPROXY_MSG_MAX - TRACE_LINE_MAX"
    by (simp add: w trace_start_def const_defs)
  from trace_loop_text [OF this] have "trace_loop s w [] = Some (trace_text s)"
    by (simp add: trace_text_def w)
  moreover have "length (trace_text s) < SPIPROXY_MSG_MAX"
    using length_trace_text [of s] by (simp add: const_defs)
  ultimately show ?thesis
    using reply_holds [OF quiet_refl, where body = "bytes_of_string (trace_text s)"]
    by (auto simp: exec_trace_def wp_simps Let_def txt_bytes_fits simp flip: w_def)
qed

text \<open>
  STATS prints the device path, the reset line name, and one line per client. \<open>stats_ok\<close> is
  what keeps the text inside \<^verbatim>\<open>txt\<close>: the C types of the fields, the size of \<^verbatim>\<open>client_t.comm\<close>,
  and a bound on the two command-line strings.
\<close>

definition int32 :: "int \<Rightarrow> bool" where
  "int32 i \<longleftrightarrow> - (2 ^ 31) \<le> i \<and> i < 2 ^ 31"

definition rst_text :: "'w daemon \<Rightarrow> string" where
  "rst_text s = (if 0 \<le> rst_fd s then (case rst_line s of Some l \<Rightarrow> l | None \<Rightarrow> ''on'') else ''off'')"

definition stats_ok :: "'w daemon \<Rightarrow> bool" where
  "stats_ok s \<longleftrightarrow> length (dev s) + length (rst_text s) \<le> 1800 \<and> pad s \<le> SPI_PAD_MAX \<and> int32 (freq s) \<and>
     (\<forall>i < MAX_CLIENTS. length (c_comm (cl s i)) < COMM_PATH_MAX \<and> int32 (c_pid (cl s i)))"

definition stats_text :: "'w daemon \<Rightarrow> string" where
  "stats_text s =
     stats_line s @ concat (map (\<lambda>i. client_line (cl s i)) (filter (\<lambda>i. c_used (cl s i)) [0..<MAX_CLIENTS]))"

lemma stats_ok_run_frame: "run_frame s s' \<Longrightarrow> stats_ok s' = stats_ok s"
  by (simp add: stats_ok_def run_frame_slot rst_text_def) (simp add: run_frame_def conf_of_def)

lemma length_client_line:
  assumes "length (c_comm c) < COMM_PATH_MAX" and "int32 (c_pid c)"
  shows "length (client_line c) \<le> 131"
  using assms length_show_int32 [of "c_pid c"] length_show_dec_u32 [of "c_id c"]
    length_show_dec_u64 [of "c_n_msgs c"] length_show_dec_u64 [of "c_n_ops c"]
    length_show_dec_u64 [of "c_n_err c"]
  by (simp add: client_line_def int32_def const_defs)

lemma length_stats_line:
  assumes "stats_ok s" and "int32 (n_queued s)"
  shows "length (stats_line s) \<le> 1994"
proof -
  have "length (show_dec (pad s)) \<le> 2"
    using assms by (intro length_show_dec_le) (simp_all add: stats_ok_def const_defs)
  moreover have "length (case claim_owner s of Some c \<Rightarrow> pu (c_id (cl s c)) | None \<Rightarrow> ''0'') \<le> 10"
    by (simp add: length_show_dec_u32 split: option.split)
  ultimately show ?thesis
    using assms length_show_int32 [of "freq s"] length_show_int32 [of "n_queued s"]
      length_show_dec_u64 [of "n_reads s"] length_show_dec_u64 [of "n_writes s"]
      length_show_dec_u64 [of "n_io_err s"] length_show_dec_u64 [of "n_warns s"]
    unfolding stats_ok_def rst_text_def [symmetric] int32_def stats_line_def
    by simp
qed

lemma stats_loop_text:
  assumes "stats_ok s" and "\<forall>i \<in> set is. i < MAX_CLIENTS"
    and "length t + 131 * length is < SPIPROXY_MSG_MAX"
  shows "stats_loop s is t = Some (t @ concat (map (\<lambda>i. client_line (cl s i)) (filter (\<lambda>i. c_used (cl s i)) is)))"
  using assms
proof (induction "is" arbitrary: t)
  case (Cons i "is")
  then have "length (client_line (cl s i)) \<le> 131"
    by (intro length_client_line) (simp_all add: stats_ok_def)
  with Cons show ?case by (simp add: txt_append_def)
qed simp

lemma length_stats_text:
  assumes "stats_ok s" and "int32 (n_queued s)"
  shows "length (stats_text s) < SPIPROXY_MSG_MAX"
proof -
  let ?us = "filter (\<lambda>i. c_used (cl s i)) [0..<MAX_CLIENTS]"
  have "length (concat (map (\<lambda>i. client_line (cl s i)) ?us)) \<le> 131 * length (map (\<lambda>i. client_line (cl s i)) ?us)"
    using assms by (intro length_concat_le) (auto simp: stats_ok_def intro!: length_client_line)
  also have "\<dots> \<le> 131 * MAX_CLIENTS"
    using length_filter_le [of "\<lambda>i. c_used (cl s i)" "[0..<MAX_CLIENTS]"] by simp
  finally show ?thesis
    using length_stats_line [OF assms] by (simp add: stats_text_def const_defs)
qed

lemma exec_stats_replied:
  assumes "stats_ok s" and "int32 (n_queued s)"
  shows "holds (exec_stats B it s) (replied it SPIPROXY_OK (bytes_of_string (stats_text s)) s)"
proof -
  have "stats_loop s [0..<MAX_CLIENTS] (stats_line s) = Some (stats_text s)"
    unfolding stats_text_def
    using length_stats_line [OF assms] by (intro stats_loop_text [OF assms(1)]) (simp_all add: const_defs)
  with length_stats_text [OF assms] show ?thesis
    using reply_holds [OF quiet_refl, where body = "bytes_of_string (stats_text s)"]
    by (auto simp: exec_stats_def wp_simps txt_append_def txt_bytes_fits)
qed

end
