(* ===== verification/Crc16.thy ===== *)
theory Crc16
  imports Spid_Prelude
begin

text \<open>
  The mailbox checksum \<^verbatim>\<open>crc16_ccitt\<close>: polynomial 0x1021, initial value 0xffff, most
  significant bit first. The second half of the theory is the reference view of the same code
  as a bit-serial register and what that register detects.
\<close>

section \<open>The routine\<close>

definition crc_shift :: "u16 \<Rightarrow> u16" where
  "crc_shift crc = (if crc AND 0x8000 \<noteq> 0 then push_bit 1 crc XOR 0x1021 else push_bit 1 crc)"

definition crc_byte :: "u16 \<Rightarrow> u8 \<Rightarrow> u16" where
  "crc_byte crc b = (crc_shift ^^ 8) (crc XOR push_bit 8 (ucast b))"

definition crc16_ccitt :: "u8 list \<Rightarrow> u16" where
  "crc16_ccitt p = foldl crc_byte 0xffff p"

section \<open>The shift step is linear and injective\<close>

lemma bit_0x8000: "bit (0x8000 :: u16) n \<longleftrightarrow> n = 15"
proof -
  have "(0x8000 :: u16) = 2 ^ 15" by simp
  then show ?thesis by (simp only: bit_exp_iff possible_bit_word) auto
qed

lemma bit_0x1021: "bit (0x1021 :: u16) n \<longleftrightarrow> n \<in> {0, 5, 12}"
proof -
  have "(0x1021 :: u16) = 2 ^ 12 OR 2 ^ 5 OR 2 ^ 0" by simp
  then show ?thesis by (simp only: bit_or_iff bit_exp_iff possible_bit_word) auto
qed

lemma msb_test: "(x :: u16) AND 0x8000 \<noteq> 0 \<longleftrightarrow> bit x 15"
proof
  assume "x AND 0x8000 \<noteq> 0"
  then obtain n where "bit (x AND 0x8000) n"
    by (metis bit_0_eq bit_eqI bot_apply bot_bool_def)
  then show "bit x 15"
    by (auto simp only: bit_and_iff bit_0x8000)
next
  assume "bit x 15"
  then have "bit (x AND 0x8000) 15"
    by (simp only: bit_and_iff bit_0x8000)
  then show "x AND 0x8000 \<noteq> 0"
    by (metis bit_0_eq bot_apply bot_bool_def)
qed

lemma bit_crc_shift:
  assumes "n < 16"
  shows "bit (crc_shift x) n \<longleftrightarrow> (0 < n \<and> bit x (n - 1)) \<noteq> (bit x 15 \<and> n \<in> {0, 5, 12})"
proof -
  have "bit (push_bit 1 x) n \<longleftrightarrow> 0 < n \<and> bit x (n - 1)"
    using assms by (simp only: bit_push_bit_iff possible_bit_word) auto
  then show ?thesis
    unfolding crc_shift_def msb_test
    by (cases "bit x 15") (simp_all only: if_True if_False bit_xor_iff bit_0x1021 simp_thms)
qed

lemma crc_shift_xor: "crc_shift (x XOR y) = crc_shift x XOR crc_shift y"
  by (rule bit_word_eqI) (auto simp: bit_crc_shift bit_xor_iff)

lemma crc_shift_zero [simp]: "crc_shift 0 = 0"
  by (simp add: crc_shift_def)

lemma crc_shift_inject: "crc_shift x = crc_shift y \<longleftrightarrow> x = y"
proof
  assume eq: "crc_shift x = crc_shift y"
  have top: "bit x 15 \<longleftrightarrow> bit y 15"
    using bit_crc_shift [of 0 x] bit_crc_shift [of 0 y] eq by simp
  have low: "bit x n \<longleftrightarrow> bit y n" if "n < 15" for n
    using bit_crc_shift [of "Suc n" x] bit_crc_shift [of "Suc n" y] eq top that by auto
  show "x = y"
  proof (rule bit_word_eqI)
    fix n assume "n < LENGTH(16)"
    then have "n < 15 \<or> n = 15" by auto
    then show "bit x n = bit y n" using low top by auto
  qed
qed simp

lemma crc_shift_pow_inject: "(crc_shift ^^ n) x = (crc_shift ^^ n) y \<longleftrightarrow> x = y"
  by (induction n) (simp_all add: crc_shift_inject)

lemma crc_shift_pow_xor: "(crc_shift ^^ n) (x XOR y) = (crc_shift ^^ n) x XOR (crc_shift ^^ n) y"
  by (induction n) (simp_all add: crc_shift_xor)

section \<open>The bit-serial register\<close>

text \<open>
  The reference: a register that takes one message bit at a time. \<open>byte_bits\<close> lists a byte
  most significant bit first; \<open>bits_word\<close> aligns up to sixteen bits with the register.
\<close>

definition crc_bit :: "u16 \<Rightarrow> bool \<Rightarrow> u16" where
  "crc_bit c b = crc_shift (c XOR (if b then 0x8000 else 0))"

definition crc_bits :: "u16 \<Rightarrow> bool list \<Rightarrow> u16" where
  "crc_bits c bs = foldl crc_bit c bs"

definition byte_bits :: "u8 \<Rightarrow> bool list" where
  "byte_bits b = map (bit b) (rev [0..<8])"

definition bits_word :: "bool list \<Rightarrow> u16" where
  "bits_word bs = foldr (\<lambda>i w. (if bs ! i then 2 ^ (15 - i) else 0) XOR w) [0..<length bs] 0"

lemma bit_single: "bit (2 ^ k :: u16) n \<longleftrightarrow> n = k \<and> k < 16"
  by (auto simp: bit_exp_iff possible_bit_word)

lemma bit_fold_single:
  assumes "distinct is" and "set is \<subseteq> {..<16}" and "n < 16"
  shows "bit (foldr (\<lambda>i w. (if bs ! i then 2 ^ (15 - i) else 0) XOR w) is (0 :: u16)) n \<longleftrightarrow>
     15 - n \<in> set is \<and> bs ! (15 - n)"
  using assms(1,2)
proof (induction "is")
  case (Cons i "is")
  then have "i < 16" by simp
  with \<open>n < 16\<close> have "n = 15 - i \<longleftrightarrow> i = 15 - n" by auto
  with Cons show ?case by (auto simp: bit_xor_iff bit_single)
qed simp

lemma bit_bits_word:
  "length bs \<le> 16 \<Longrightarrow> n < 16 \<Longrightarrow> bit (bits_word bs) n \<longleftrightarrow> 15 - n < length bs \<and> bs ! (15 - n)"
  unfolding bits_word_def by (subst bit_fold_single) auto

lemma bits_word_inject:
  assumes "length xs = length ys" and "length ys \<le> 16" and "bits_word xs = bits_word ys"
  shows "xs = ys"
proof (rule nth_equalityI)
  fix i assume "i < length xs"
  then show "xs ! i = ys ! i"
    using assms bit_bits_word [of xs "15 - i"] bit_bits_word [of ys "15 - i"] by simp
qed (fact assms(1))

lemma bits_word_snoc:
  "length bs < 16 \<Longrightarrow> bits_word (bs @ [b]) = bits_word bs XOR (if b then 2 ^ (15 - length bs) else 0)"
proof (rule bit_word_eqI)
  fix n assume "length bs < 16" and "n < LENGTH(16)"
  then show "bit (bits_word (bs @ [b])) n =
      bit (bits_word bs XOR (if b then 2 ^ (15 - length bs) else 0)) n"
    by (auto simp: bit_bits_word bit_xor_iff bit_single nth_append)
qed

lemma crc_shift_single: "k < 15 \<Longrightarrow> crc_shift (2 ^ k) = 2 ^ Suc k"
  by (rule bit_word_eqI) (auto simp: bit_crc_shift bit_single simp del: power_Suc)

lemma crc_shift_pow_single: "k + n \<le> 15 \<Longrightarrow> (crc_shift ^^ n) (2 ^ k) = 2 ^ (k + n)"
  by (induction n) (simp_all add: crc_shift_single del: power_Suc)

text \<open>Feeding up to sixteen bits is one exclusive-or followed by shifts.\<close>

lemma crc_bits_window: "length bs \<le> 16 \<Longrightarrow> crc_bits c bs = (crc_shift ^^ length bs) (c XOR bits_word bs)"
proof (induction bs rule: rev_induct)
  case Nil
  then show ?case by (simp add: crc_bits_def bits_word_def)
next
  case (snoc b bs)
  have top: "(crc_shift ^^ length bs) (if b then 2 ^ (15 - length bs) else 0) =
      (if b then 0x8000 else 0)"
  proof (cases b)
    case True
    have "(0x8000 :: u16) = 2 ^ 15" by simp
    with True snoc.prems show ?thesis
      by (simp only: if_True) (subst crc_shift_pow_single, auto)
  next
    case False
    have "(crc_shift ^^ n) 0 = 0" for n by (induction n) simp_all
    with False show ?thesis by simp
  qed
  have "crc_bits c (bs @ [b]) = crc_shift ((crc_shift ^^ length bs) (c XOR bits_word bs) XOR
      (if b then 0x8000 else 0))"
    using snoc by (simp add: crc_bits_def crc_bit_def)
  also have "\<dots> = crc_shift ((crc_shift ^^ length bs) (c XOR bits_word (bs @ [b])))"
    using snoc.prems by (simp add: bits_word_snoc crc_shift_pow_xor top flip: xor.assoc)
  finally show ?case by simp
qed

lemma byte_bits_word: "bits_word (byte_bits b) = push_bit 8 (ucast b)"
proof (rule bit_word_eqI)
  fix n assume "n < LENGTH(16)"
  then show "bit (bits_word (byte_bits b)) n = bit (push_bit 8 (ucast b) :: u16) n"
    by (auto simp: bit_bits_word byte_bits_def bit_push_bit_iff bit_ucast_iff rev_nth
        dest: bit_imp_le_length)
qed

lemma crc_byte_bits: "crc_byte c b = crc_bits c (byte_bits b)"
proof -
  have "length (byte_bits b) = 8" by (simp add: byte_bits_def)
  then show ?thesis
    by (simp only: crc_bits_window crc_byte_def byte_bits_word)
qed

lemma crc_bits_append: "crc_bits c (xs @ ys) = crc_bits (crc_bits c xs) ys"
  by (simp add: crc_bits_def)

lemma crc16_ccitt_bits: "crc16_ccitt p = crc_bits 0xffff (concat (map byte_bits p))"
proof -
  have "foldl crc_byte c p = crc_bits c (concat (map byte_bits p))" for c
    by (induction p arbitrary: c) (simp_all add: crc_byte_bits crc_bits_append, simp add: crc_bits_def)
  then show ?thesis by (simp add: crc16_ccitt_def)
qed

lemma crc_bit_inject: "crc_bit c b = crc_bit d b \<longleftrightarrow> c = d"
  by (simp add: crc_bit_def crc_shift_inject)

lemma crc_bits_inject: "crc_bits c bs = crc_bits d bs \<longleftrightarrow> c = d"
  by (induction bs arbitrary: c d) (simp_all add: crc_bits_def crc_bit_inject)

lemma crc_bits_burst:
  assumes "length xs = length ys" and "length ys \<le> 16"
    and "crc_bits c (pre @ xs @ post) = crc_bits c (pre @ ys @ post)"
  shows "xs = ys"
proof -
  from assms(3) have "crc_bits (crc_bits c pre) xs = crc_bits (crc_bits c pre) ys"
    by (simp add: crc_bits_append crc_bits_inject)
  with assms(1,2) have "bits_word xs = bits_word ys"
    by (simp add: crc_bits_window crc_shift_pow_inject)
  with assms(1,2) show ?thesis by (rule bits_word_inject)
qed

end
