(* ===== verification/Mailbox.thy ===== *)
theory Mailbox
  imports Handlers Crc16
begin

text \<open>
  The register-level halves of \<^verbatim>\<open>exec_mailbox\<close>: \<open>mb_request\<close> builds the packet, writes it and
  rings the doorbell; \<open>mb_finish\<close> reads the response, acknowledges it and checks its CRC. The
  wait between them re-enters the queues and is in the theory Dispatch.

  \<open>pkt\<close> is the stack buffer of \<^const>\<open>MB_HDR_LEN\<close> + 1018 + 2 + 3 bytes, whose initial content is
  arbitrary; \<open>v\<close> is the local whose last value the log prints when a read fails.
\<close>

section \<open>Request\<close>

definition PKT_SIZE :: nat where [const_defs]:
  "PKT_SIZE = MB_HDR_LEN + SPIPROXY_MB_MAX + MB_CRC_LEN + 3"

definition word_at :: "mem \<Rightarrow> nat \<Rightarrow> u32" where
  "word_at pkt i = un_le32 (pkt i) (pkt (i + 1)) (pkt (i + 2)) (pkt (i + 3))"

definition mb_wlen :: "u16 \<Rightarrow> nat" where
  "mb_wlen len = unat ((len + 3) AND NOT 3)"

definition mb_build :: "spiproxy_mb \<Rightarrow> u8 list \<Rightarrow> mem \<Rightarrow> mem option" where
  "mb_build mb payload pkt =
     do {
       let n = unat (mb_payload_len mb);
       let len = of_nat MB_HDR_LEN + mb_payload_len mb + of_nat MB_CRC_LEN;
       let pkt = pkt(0 := mb_cmd mb, 1 := 0xff, 2 := ucast len, 3 := ucast (drop_bit 8 len));
       guard (MB_HDR_LEN + n + 1 < PKT_SIZE);
       let pkt = mem_write MB_HDR_LEN payload pkt;
       let crc = crc16_ccitt (mem_read pkt 0 (MB_HDR_LEN + n));
       Some (pkt(MB_HDR_LEN + n := ucast crc, MB_HDR_LEN + n + 1 := ucast (drop_bit 8 crc)))
     }"

fun mb_put :: "'w build \<Rightarrow> u8 \<Rightarrow> mem \<Rightarrow> nat list \<Rightarrow> u32 \<Rightarrow> 'w daemon \<Rightarrow> (bool \<times> u32 \<times> 'w daemon) option" where
  "mb_put B sl pkt [] v s = Some (True, v, s)"
| "mb_put B sl pkt (k # ks) v s =
     do {
       guard (4 * k + 3 < PKT_SIZE);
       let v = word_at pkt (4 * k);
       let (ok, s) = mb_wr B sl (of_nat (MB_CMD_ADDR + k)) v s;
       if ok then mb_put B sl pkt ks v s else Some (False, v, s)
     }"

text \<open>
  The result is the status to return, or \<^term>\<open>None\<close> when the transaction is under way.
\<close>

definition mb_ring :: "'w build \<Rightarrow> u8 \<Rightarrow> u32 \<Rightarrow> 'w daemon \<Rightarrow> spiproxy_status option \<times> u32 \<times> 'w daemon" where
  "mb_ring B sl v s =
     (case mb_rd B sl MB_MCU_MASK v s of
        (None, s) \<Rightarrow> (Some SPIPROXY_EIO, v, s\<lparr>mb_inflight := False\<rparr>)
      | (Some v, s) \<Rightarrow>
          (let (ok, s) = mb_wr B sl MB_MCU_MASK (v OR 1) s
           in if \<not> ok then (Some SPIPROXY_EIO, v, s\<lparr>mb_inflight := False\<rparr>)
              else
                (let (ok, s) = mb_wr B sl MB_FLAG MB_SET_REQ s
                 in if \<not> ok then (Some SPIPROXY_EIO, v, s\<lparr>mb_inflight := False\<rparr>)
                    else (None, v, s))))"

definition mb_request ::
    "'w build \<Rightarrow> spiproxy_mb \<Rightarrow> u8 list \<Rightarrow> mem \<Rightarrow> u32 \<Rightarrow> 'w daemon \<Rightarrow>
     (spiproxy_status option \<times> mem \<times> u32 \<times> 'w daemon) option" where
  "mb_request B mb payload pkt v s =
     (if SPIPROXY_MB_MAX < unat (mb_payload_len mb) \<or> SLICE_COUNT \<le> unat (mb_slice mb)
      then Some (Some SPIPROXY_EINVAL, pkt, v, s)
      else do {
        let len = of_nat MB_HDR_LEN + mb_payload_len mb + of_nat MB_CRC_LEN;
        pkt \<leftarrow> mb_build mb payload pkt;
        case mb_rd B (mb_slice mb) MB_FLAG v s of
          (None, s) \<Rightarrow> Some (Some SPIPROXY_EIO, pkt, v, s)
        | (Some v, s) \<Rightarrow>
            if v AND MB_F_BUSY \<noteq> 0 then Some (Some SPIPROXY_EBUSY, pkt, v, s)
            else do {
              let s = s\<lparr>mb_inflight := True\<rparr>;
              (ok, v, s) \<leftarrow> mb_put B (mb_slice mb) pkt [0..<mb_wlen len div 4] v s;
              if \<not> ok then Some (Some SPIPROXY_EIO, pkt, v, s\<lparr>mb_inflight := False\<rparr>)
              else
                (let (st, v, s) = mb_ring B (mb_slice mb) v s
                 in Some (st, pkt, v, s))
            }
      })"

section \<open>Response\<close>

fun mb_get :: "'w build \<Rightarrow> u8 \<Rightarrow> mem \<Rightarrow> nat list \<Rightarrow> u32 \<Rightarrow> 'w daemon \<Rightarrow> (bool \<times> mem \<times> 'w daemon) option" where
  "mb_get B sl pkt [] v s = Some (True, pkt, s)"
| "mb_get B sl pkt (k # ks) v s =
     (case mb_rd B sl (of_nat (MB_RESP_ADDR + k)) v s of
        (None, s) \<Rightarrow> Some (False, pkt, s)
      | (Some v, s) \<Rightarrow>
          do {
            guard (4 * k + 3 < PKT_SIZE);
            mb_get B sl (mem_write (4 * k) (le32 v) pkt) ks v s
          })"

text \<open>Status, response packet id and payload; the latter two only meaningful with \<^const>\<open>SPIPROXY_OK\<close>.\<close>

definition mb_finish ::
    "'w build \<Rightarrow> u8 \<Rightarrow> mem \<Rightarrow> u32 \<Rightarrow> 'w daemon \<Rightarrow>
     (spiproxy_status \<times> u8 \<times> u8 list \<times> 'w daemon) option" where
  "mb_finish B sl pkt v s =
     (case mb_rd B sl (of_nat MB_RESP_ADDR) v s of
        (None, s) \<Rightarrow> Some (SPIPROXY_EIO, 0, [], s\<lparr>mb_inflight := False\<rparr>)
      | (Some v, s) \<Rightarrow>
          (let len16 = ucast (drop_bit 16 v) :: u16; len = unat len16
           in if len < MB_HDR_LEN + MB_CRC_LEN \<or> MB_HDR_LEN + SPIPROXY_MB_MAX + MB_CRC_LEN < len then
                (let (ok, s) = mb_wr B sl MB_FLAG MB_CLR_RESP s
                 in Some (SPIPROXY_EINVAL, 0, [], s\<lparr>mb_inflight := False\<rparr>))
              else do {
                let pkt = mem_write 0 (le32 v) pkt;
                (ok, pkt, s) \<leftarrow> mb_get B sl pkt [1..<mb_wlen len16 div 4] v s;
                if \<not> ok then Some (SPIPROXY_EIO, 0, [], s\<lparr>mb_inflight := False\<rparr>)
                else do {
                  let (ok, s) = mb_wr B sl MB_FLAG MB_CLR_RESP s;
                  let s = s\<lparr>mb_inflight := False\<rparr>;
                  guard (len \<le> PKT_SIZE);
                  let crc = un_le16 (pkt (len - 2)) (pkt (len - 1));
                  if crc16_ccitt (mem_read pkt 0 (len - MB_CRC_LEN)) \<noteq> crc
                  then Some (SPIPROXY_ECRC, 0, [], s)
                  else do {
                    guard (len - MB_HDR_LEN - MB_CRC_LEN \<le> SPIPROXY_MB_MAX);
                    Some (SPIPROXY_OK, pkt 0, mem_read pkt MB_HDR_LEN (len - MB_HDR_LEN - MB_CRC_LEN), s)
                  }
                }
              }))"

section \<open>Rounding to words\<close>

lemma and_not_mask: "(w :: u16) AND NOT (mask k) = push_bit k (drop_bit k w)"
  by (intro bit_word_eqI) (auto simp: bit_simps)

lemma and_not_3: "(w :: u16) AND NOT 3 = push_bit 2 (drop_bit 2 w)"
proof -
  have "(3 :: u16) = mask 2" by (simp add: mask_eq_exp_minus_1)
  then show ?thesis using and_not_mask [of w 2] by (simp only:)
qed

lemma mb_wlen_eq:
  assumes "unat len + 3 < 65536"
  shows "mb_wlen len = 4 * ((unat len + 3) div 4)"
proof -
  have "unat (len + 3) = unat len + 3" using assms by (simp add: unat_word_ariths)
  then show ?thesis using assms
    unfolding mb_wlen_def and_not_3
    by (simp add: push_bit_eq_mult drop_bit_eq_div unat_word_ariths unat_div)
qed

lemma mb_word_in_pkt:
  assumes "unat len \<le> MB_HDR_LEN + SPIPROXY_MB_MAX + MB_CRC_LEN" and "k < mb_wlen len div 4"
  shows "4 * k + 3 < PKT_SIZE"
proof -
  have "k < (unat len + 3) div 4" using assms by (simp add: mb_wlen_eq const_defs)
  then have "4 * k + 4 \<le> unat len + 3" by linarith
  then show ?thesis using assms(1) by (simp add: const_defs)
qed

lemma mb_len_unat:
  "unat n \<le> SPIPROXY_MB_MAX \<Longrightarrow> unat (of_nat MB_HDR_LEN + n + of_nat MB_CRC_LEN :: u16) = 6 + unat n"
  by (simp add: const_defs unat_word_ariths)

section \<open>Frames\<close>

text \<open>\<open>mbx_frame s s'\<close>: as \<^const>\<open>io_frame\<close>, with the mailbox flag free to change.\<close>

definition mbx_frame :: "'w daemon \<Rightarrow> 'w daemon \<Rightarrow> bool" where
  "mbx_frame s s' \<longleftrightarrow> io_frame (s\<lparr>mb_inflight := mb_inflight s'\<rparr>) s'"

lemma io_mbx_frame: "io_frame s s' \<Longrightarrow> mbx_frame s s'"
  by (simp add: mbx_frame_def io_frame_iff)

lemma mbx_frame_refl [simp, intro]: "mbx_frame s s"
  by (simp add: mbx_frame_def io_frame_iff)

lemma mbx_frame_trans [trans]: "mbx_frame s s' \<Longrightarrow> mbx_frame s' s'' \<Longrightarrow> mbx_frame s s''"
  by (auto simp: mbx_frame_def io_frame_iff)

lemma mbx_frame_upd [simp]:
  "mbx_frame s (s'\<lparr>mb_inflight := b\<rparr>) = mbx_frame s s'"
  "mbx_frame (s\<lparr>mb_inflight := b\<rparr>) s' = mbx_frame s s'"
  by (simp_all add: mbx_frame_def io_frame_iff)

lemma mbx_frameD:
  assumes "mbx_frame s s'"
  shows "run_frame s s'" and "sent s' = sent s" and "claim_of s' = claim_of s" and "pool s' = pool s"
proof -
  have i: "io_frame (s\<lparr>mb_inflight := mb_inflight s'\<rparr>) s'" using assms by (simp add: mbx_frame_def)
  from io_run_frame [OF i] show "run_frame s s'" by simp
  from i show "sent s' = sent s" "claim_of s' = claim_of s" "pool s' = pool s"
    by (simp_all add: io_frame_iff claim_of_def)
qed

context spi_backend
begin

lemma mb_rd_frame: "mb_rd B sl r v s = (res, s') \<Longrightarrow> mbx_frame s s' \<and> mb_inflight s' = mb_inflight s"
  by (drule mb_rd_io) (simp add: io_mbx_frame io_frame_iff)

lemma mb_wr_frame: "mb_wr B sl r v s = (ok, s') \<Longrightarrow> mbx_frame s s' \<and> mb_inflight s' = mb_inflight s"
  by (drule mb_wr_io) (simp add: io_mbx_frame io_frame_iff)

lemma mb_put_holds:
  "\<forall>k \<in> set ks. 4 * k + 3 < PKT_SIZE \<Longrightarrow>
   holds (mb_put B sl pkt ks v s) (\<lambda>(ok, v', s'). mbx_frame s s' \<and> mb_inflight s' = mb_inflight s)"
proof (induction ks arbitrary: v s)
  case (Cons k ks)
  obtain ok s1 where w: "mb_wr B sl (of_nat (MB_CMD_ADDR + k)) (word_at pkt (4 * k)) s = (ok, s1)"
    by fastforce
  show ?case
    using Cons.prems mb_wr_frame [OF w]
    by (auto simp: wp_simps w [simplified] Let_def intro!: holds_mono [OF Cons.IH] intro: mbx_frame_trans)
qed (simp add: wp_simps)

lemma mb_get_holds:
  "\<forall>k \<in> set ks. 4 * k + 3 < PKT_SIZE \<Longrightarrow>
   holds (mb_get B sl pkt ks v s) (\<lambda>(ok, pkt', s'). mbx_frame s s' \<and> mb_inflight s' = mb_inflight s)"
proof (induction ks arbitrary: pkt v s)
  case (Cons k ks)
  obtain r s1 where w: "mb_rd B sl (of_nat (MB_RESP_ADDR + k)) v s = (r, s1)" by fastforce
  show ?case
    using Cons.prems mb_rd_frame [OF w]
    by (auto simp: wp_simps w [simplified] Let_def split: option.split
        intro!: holds_mono [OF Cons.IH] intro: mbx_frame_trans)
qed (simp add: wp_simps)

lemma mb_ring_frame:
  "mb_ring B sl v s = (st, v', s') \<Longrightarrow> mb_inflight s \<Longrightarrow>
     mbx_frame s s' \<and> mb_inflight s' = (st = None)"
  by (auto simp: mb_ring_def Let_def split: prod.splits option.splits if_splits
      dest!: mb_rd_frame mb_wr_frame intro: mbx_frame_trans)

lemma mb_request_holds:
  "holds (mb_request B mb payload pkt v s) (\<lambda>(st, pkt', v', s').
     mbx_frame s s' \<and> (if st = None then mb_inflight s' else mb_inflight s' \<longrightarrow> mb_inflight s))"
proof (cases "SPIPROXY_MB_MAX < unat (mb_payload_len mb) \<or> SLICE_COUNT \<le> unat (mb_slice mb)")
  case True
  then show ?thesis by (auto simp: mb_request_def wp_simps)
next
  case False
  then have n: "unat (mb_payload_len mb) \<le> SPIPROXY_MB_MAX" by simp
  let ?len = "of_nat MB_HDR_LEN + mb_payload_len mb + of_nat MB_CRC_LEN :: u16"
  have wl: "\<forall>k \<in> set [0..<mb_wlen ?len div 4]. 4 * k + 3 < PKT_SIZE"
    using mb_len_unat [OF n] n by (auto intro!: mb_word_in_pkt simp del: of_nat_numeral) (simp add: const_defs)
  obtain pkt1 where p: "mb_build mb payload pkt = Some pkt1"
    using n by (auto simp: mb_build_def Let_def const_defs)
  obtain r s1 where r: "mb_rd B (mb_slice mb) MB_FLAG v s = (r, s1)" by fastforce
  note f1 = mb_rd_frame [OF r]
  show ?thesis
  proof (cases "\<exists>x. r = Some x \<and> x AND MB_F_BUSY = 0")
    case True
    then obtain x where x: "r = Some x" "x AND MB_F_BUSY = 0" by blast
    have "holds (mb_put B (mb_slice mb) pkt1 [0..<mb_wlen ?len div 4] x (s1\<lparr>mb_inflight := True\<rparr>))
        (\<lambda>(ok, v', s'). mbx_frame s s' \<and> mb_inflight s')"
      by (rule holds_mono [OF mb_put_holds [OF wl]]) (use f1 in \<open>auto intro: mbx_frame_trans\<close>)
    then show ?thesis
      using False p r x
      by (auto simp: mb_request_def wp_simps Let_def split: prod.split dest: mb_ring_frame
          intro: mbx_frame_trans elim!: holds_mono)
  next
    case no: False
    with False p r f1 show ?thesis
      by (cases r) (auto simp: mb_request_def wp_simps Let_def)
  qed
qed

lemma mb_finish_holds:
  "holds (mb_finish B sl pkt v s) (\<lambda>(st, cmd, resp, s').
     mbx_frame s s' \<and> \<not> mb_inflight s' \<and> length resp \<le> SPIPROXY_MB_MAX \<and> (st \<noteq> SPIPROXY_OK \<longrightarrow> resp = []))"
proof -
  obtain r s1 where r: "mb_rd B sl (of_nat MB_RESP_ADDR) v s = (r, s1)" by fastforce
  note f1 = mb_rd_frame [OF r]
  show ?thesis
  proof (cases r)
    case None
    with r f1 show ?thesis by (simp add: mb_finish_def wp_simps)
  next
    case (Some x)
    let ?len16 = "ucast (drop_bit 16 x) :: u16"
    show ?thesis
    proof (cases "unat ?len16 < MB_HDR_LEN + MB_CRC_LEN \<or> MB_HDR_LEN + SPIPROXY_MB_MAX + MB_CRC_LEN < unat ?len16")
      case True
      with r Some f1 show ?thesis
        by (auto simp: mb_finish_def wp_simps Let_def split: prod.split dest!: mb_wr_frame intro: mbx_frame_trans)
    next
      case False
      then have wl: "\<forall>k \<in> set [1..<mb_wlen ?len16 div 4]. 4 * k + 3 < PKT_SIZE"
        by (auto intro!: mb_word_in_pkt)
      have g: "unat ?len16 \<le> PKT_SIZE" "unat ?len16 - MB_HDR_LEN - MB_CRC_LEN \<le> SPIPROXY_MB_MAX"
        using False unfolding const_defs by linarith+
      have "holds (mb_get B sl (mem_write 0 (le32 x) pkt) [1..<mb_wlen ?len16 div 4] x s1)
          (\<lambda>(ok, pkt', s'). mbx_frame s s')"
        by (rule holds_mono [OF mb_get_holds [OF wl]]) (use f1 in \<open>auto intro: mbx_frame_trans\<close>)
      with False r Some g show ?thesis
        by (auto simp: mb_finish_def wp_simps Let_def split: prod.split dest!: mb_wr_frame
            intro: mbx_frame_trans elim!: holds_mono)
    qed
  qed
qed

end

section \<open>The packet on the wire\<close>

text \<open>
  A mailbox packet: id, a second byte (\<^verbatim>\<open>0xff\<close> in requests), total length, payload, CRC. Both
  directions transfer it as little-endian words; \<open>mb_wr_seq\<close> and \<open>mb_rd_seq\<close> are plain sequences
  of register accesses that stop at the first failure.
\<close>

definition mb_pkt :: "u8 \<Rightarrow> u8 \<Rightarrow> u8 list \<Rightarrow> u8 list" where
  "mb_pkt cmd b payload =
     (let data = [cmd, b] @ le16 (of_nat (6 + length payload)) @ payload
      in data @ le16 (crc16_ccitt data))"

fun mb_wr_seq :: "'w build \<Rightarrow> u8 \<Rightarrow> (u16 \<times> u32) list \<Rightarrow> 'w daemon \<Rightarrow> bool \<times> 'w daemon" where
  "mb_wr_seq B sl [] s = (True, s)"
| "mb_wr_seq B sl ((r, v) # xs) s =
     (let (ok, s) = mb_wr B sl r v s in if ok then mb_wr_seq B sl xs s else (False, s))"

fun mb_rd_seq :: "'w build \<Rightarrow> u8 \<Rightarrow> u16 list \<Rightarrow> u32 \<Rightarrow> 'w daemon \<Rightarrow> u32 list option \<times> 'w daemon" where
  "mb_rd_seq B sl [] v s = (Some [], s)"
| "mb_rd_seq B sl (r # rs) v s =
     (case mb_rd B sl r v s of
        (None, s) \<Rightarrow> (None, s)
      | (Some x, s) \<Rightarrow> (let (xs, s) = mb_rd_seq B sl rs x s in (map_option ((#) x) xs, s)))"

lemma length_mb_pkt [simp]: "length (mb_pkt cmd b payload) = 6 + length payload"
  by (simp add: mb_pkt_def Let_def)

lemma mb_build_pkt:
  assumes "length payload = unat (mb_payload_len mb)" and "length payload \<le> SPIPROXY_MB_MAX"
  shows "\<exists>pkt'. mb_build mb payload pkt = Some pkt' \<and>
    mem_read pkt' 0 (6 + length payload) = mb_pkt (mb_cmd mb) 0xff payload"
proof -
  let ?n = "length payload"
  define len :: u16 where "len = of_nat MB_HDR_LEN + mb_payload_len mb + of_nat MB_CRC_LEN"
  define pkt1 where "pkt1 = mem_write MB_HDR_LEN payload
    (pkt(0 := mb_cmd mb, 1 := 0xff, 2 := ucast len, 3 := ucast (drop_bit 8 len)))"
  define crc where "crc = crc16_ccitt (mem_read pkt1 0 (MB_HDR_LEN + ?n))"
  have len: "len = of_nat (6 + ?n)"
    by (simp add: len_def const_defs assms(1))
  have e: "mb_build mb payload pkt = Some (pkt1(4 + ?n := ucast crc, 4 + ?n + 1 := ucast (drop_bit 8 crc)))"
    using assms by (simp add: mb_build_def Let_def pkt1_def crc_def len_def const_defs)
  have d: "mem_read pkt1 0 (4 + ?n) = [mb_cmd mb, 0xff] @ le16 len @ payload"
    unfolding mem_read_add by (simp add: pkt1_def const_defs, simp add: numeral_eq_Suc mem_read_Suc mem_write_def le16_def)
  have "mem_read (pkt1(4 + ?n := x, 4 + ?n + 1 := y)) 0 (6 + ?n) = mem_read pkt1 0 (4 + ?n) @ [x, y]" for x y
  proof -
    have "6 + ?n = (4 + ?n) + 2" by simp
    then have "mem_read (pkt1(4 + ?n := x, 4 + ?n + 1 := y)) 0 (6 + ?n) =
        mem_read (pkt1(4 + ?n := x, 4 + ?n + 1 := y)) 0 (4 + ?n) @
        mem_read (pkt1(4 + ?n := x, 4 + ?n + 1 := y)) (4 + ?n) 2"
      by (simp only: mem_read_add add_0)
    also have "mem_read (pkt1(4 + ?n := x, 4 + ?n + 1 := y)) 0 (4 + ?n) = mem_read pkt1 0 (4 + ?n)"
      by (rule mem_read_cong) simp
    also have "mem_read (pkt1(4 + ?n := x, 4 + ?n + 1 := y)) (4 + ?n) 2 = [x, y]"
      by (simp add: numeral_2_eq_2 mem_read_Suc)
    finally show ?thesis .
  qed
  then show ?thesis
    unfolding e using d by (simp add: mb_pkt_def Let_def crc_def const_defs len le16_def)
qed

lemma mb_put_seq:
  assumes "\<forall>k \<in> set ks. 4 * k + 3 < PKT_SIZE"
    and "mb_wr_seq B sl (map (\<lambda>k. (of_nat (MB_CMD_ADDR + k), word_at pkt (4 * k))) ks) s = (ok, s')"
  shows "\<exists>v'. mb_put B sl pkt ks v s = Some (ok, v', s')"
  using assms
proof (induction ks arbitrary: v s)
  case (Cons k ks)
  obtain o1 s1 where w: "mb_wr B sl (of_nat (MB_CMD_ADDR + k)) (word_at pkt (4 * k)) s = (o1, s1)"
    by fastforce
  show ?case
    using Cons.prems Cons.IH [of s1 "word_at pkt (4 * k)"] w by (cases o1) (auto simp: Let_def)
qed simp

lemma le32_word_at: "le32 (word_at pkt i) = mem_read pkt i 4"
  by (simp add: word_at_def numeral_eq_Suc mem_read_Suc)

lemma words_image: "concat (map (\<lambda>k. le32 (word_at pkt (4 * k))) [0..<m]) = mem_read pkt 0 (4 * m)"
proof (induction m)
  case (Suc m)
  have "4 * Suc m = 4 * m + 4" by simp
  with Suc show ?case by (simp only: mem_read_add) (simp add: le32_word_at)
qed simp

lemma words_split:
  assumes "n \<le> 4 * m"
  shows "mem_read pkt 0 (4 * m) = mem_read pkt 0 n @ mem_read pkt n (4 * m - n)"
  using mem_read_add [of pkt 0 n "4 * m - n"] assms by simp

lemma mb_get_seq:
  assumes "mb_rd_seq B sl (map (\<lambda>k. of_nat (MB_RESP_ADDR + k)) [a..<b]) v s = (Some ws, s')"
    and "a \<le> b" and "4 * b \<le> PKT_SIZE"
  shows "mb_get B sl pkt [a..<b] v s = Some (True, mem_write (4 * a) (concat (map le32 ws)) pkt, s')"
  using assms
proof (induction "b - a" arbitrary: a v s ws pkt)
  case 0
  then show ?case by simp
next
  case (Suc n)
  then have u: "[a..<b] = a # [Suc a..<b]" by (simp add: upt_conv_Cons)
  obtain r s1 where r: "mb_rd B sl (of_nat (MB_RESP_ADDR + a)) v s = (r, s1)" by fastforce
  with Suc.prems(1) u obtain x xs where x: "r = Some x" "ws = x # xs"
    "mb_rd_seq B sl (map (\<lambda>k. of_nat (MB_RESP_ADDR + k)) [Suc a..<b]) x s1 = (Some xs, s')"
    by (auto simp: Let_def split: option.splits prod.splits)
  have "mb_get B sl (mem_write (4 * a) (le32 x) pkt) [Suc a..<b] x s1 =
      Some (True, mem_write (4 * Suc a) (concat (map le32 xs)) (mem_write (4 * a) (le32 x) pkt), s')"
    using Suc.hyps(2) Suc.prems by (intro Suc.hyps(1) x(3)) simp_all
  also have "mem_write (4 * Suc a) (concat (map le32 xs)) (mem_write (4 * a) (le32 x) pkt) =
      mem_write (4 * a) (concat (map le32 ws)) pkt"
    using mem_write_append [of "4 * a" "le32 x"] x(2) by (simp add: add.commute)
  finally have "mb_get B sl (mem_write (4 * a) (le32 x) pkt) [Suc a..<b] x s1 =
      Some (True, mem_write (4 * a) (concat (map le32 ws)) pkt, s')" .
  moreover have "4 * a + 3 < PKT_SIZE" using Suc.prems Suc.hyps(2) by linarith
  ultimately show ?case using r x(1) u by simp
qed

text \<open>What \<open>mb_finish\<close> makes of the bytes it has read, once the header word has passed.\<close>

definition mb_check :: "u8 list \<Rightarrow> spiproxy_status \<times> u8 \<times> u8 list" where
  "mb_check p =
     (let data = take (length p - 2) p
      in if le16 (crc16_ccitt data) = drop (length p - 2) p
         then (SPIPROXY_OK, p ! 0, drop 4 data) else (SPIPROXY_ECRC, 0, []))"

lemma le16_eq_iff: "le16 w = [a, b] \<longleftrightarrow> w = un_le16 a b"
  using un_le16_le16 [of w] le16_un_le16 [of a b] by (auto simp: le16_def)

lemma len_of_first_word:
  assumes "le32 x = take 4 p" and "4 \<le> length p"
  shows "ucast (drop_bit 16 x) = un_le16 (p ! 2) (p ! 3)"
proof -
  have "p ! 2 = le32 x ! 2" "p ! 3 = le32 x ! 3" using assms by simp_all
  then show ?thesis unfolding un_le16_def le32_def by (intro bit_word_eqI) (auto simp: bit_simps)
qed

lemma pkt_image:
  fixes padding :: "u8 list" and pkt :: mem
  assumes "6 \<le> length p"
  defines "m \<equiv> mem_write 0 (p @ padding) pkt"
  shows "m 0 = p ! 0" and "mem_read m 0 (length p - 2) = take (length p - 2) p"
    and "mem_read m 4 (length p - 6) = drop 4 (take (length p - 2) p)"
    and "drop (length p - 2) p = [m (length p - 2), m (length p - 1)]"
proof -
  have pk: "m i = p ! i" if "i < length p" for i using that by (simp add: m_def mem_write_def nth_append)
  show "m 0 = p ! 0" using assms(1) by (intro pk) linarith
  show "mem_read m 0 (length p - 2) = take (length p - 2) p" by (rule nth_equalityI) (simp_all add: pk)
  show "mem_read m 4 (length p - 6) = drop 4 (take (length p - 2) p)"
    using assms(1) by (intro nth_equalityI) (simp_all add: pk)
  show "drop (length p - 2) p = [m (length p - 2), m (length p - 1)]"
    using assms(1) by (simp add: pk Cons_nth_drop_Suc [symmetric] Suc_diff_Suc numeral_2_eq_2)
qed

lemma mb_finish_check:
  assumes rd: "mb_rd_seq B sl (map (\<lambda>k. of_nat (MB_RESP_ADDR + k)) [0..<m]) v s = (Some ws, s1)"
    and img: "concat (map le32 ws) = p @ padding"
    and len: "un_le16 (p ! 2) (p ! 3) = of_nat (length p)"
    and bnd: "6 \<le> length p" "length p \<le> 1024" and m: "m = (length p + 3) div 4"
  shows "mb_finish B sl pkt v s =
    (case mb_check p of (st, cmd, resp) \<Rightarrow>
       Some (st, cmd, resp, (snd (mb_wr B sl MB_FLAG MB_CLR_RESP s1))\<lparr>mb_inflight := False\<rparr>))"
proof -
  have m1: "1 \<le> m" "[0..<m] = 0 # [1..<m]" using bnd m by (simp_all add: upt_conv_Cons)
  obtain r s0 where r: "mb_rd B sl (of_nat MB_RESP_ADDR) v s = (r, s0)" by fastforce
  with rd m1 obtain x xs where x: "r = Some x" "ws = x # xs"
    and tl: "mb_rd_seq B sl (map (\<lambda>k. of_nat (MB_RESP_ADDR + k)) [1..<m]) x s0 = (Some xs, s1)"
    by (auto simp: Let_def split: option.splits prod.splits)
  have "take 4 (p @ padding) = take 4 (le32 x @ concat (map le32 xs))" using img x(2) by simp
  then have "le32 x = take 4 p" using bnd(1) by simp
  then have l16: "ucast (drop_bit 16 x) = (of_nat (length p) :: u16)" using len_of_first_word [of x p] bnd(1) len by simp
  have ul: "unat (of_nat (length p) :: u16) = length p" using bnd by (simp add: unat_of_nat)
  have wl: "mb_wlen (of_nat (length p)) div 4 = m"
    using bnd by (simp add: mb_wlen_eq ul m)
  have get: "mb_get B sl (mem_write 0 (le32 x) pkt) [1..<m] x s0 =
      Some (True, mem_write 0 (p @ padding) pkt, s1)"
  proof -
    have "4 * m \<le> PKT_SIZE" using m bnd by (simp add: const_defs)
    from mb_get_seq [OF tl m1(1) this] show ?thesis
      using mem_write_append [of 0 "le32 x" "concat (map le32 xs)" pkt] img x(2) by simp
  qed
  let ?pkt = "mem_write 0 (p @ padding) pkt" and ?n = "length p"
  obtain o2 s2 where w: "mb_wr B sl MB_FLAG MB_CLR_RESP s1 = (o2, s2)" by fastforce
  have g: "\<not> ?n < MB_HDR_LEN + MB_CRC_LEN" "\<not> MB_HDR_LEN + SPIPROXY_MB_MAX + MB_CRC_LEN < ?n" "?n \<le> PKT_SIZE"
    "?n - MB_HDR_LEN - MB_CRC_LEN \<le> SPIPROXY_MB_MAX"
    using bnd by (simp_all add: const_defs)
  note img = pkt_image [OF bnd(1), of padding pkt]
  show ?thesis
    using g bnd r x(1) w
    by (auto simp: mb_finish_def mb_check_def Let_def l16 ul wl get [unfolded One_nat_def] img img(4) [unfolded One_nat_def]
        le16_eq_iff MB_HDR_LEN_def MB_CRC_LEN_def)
qed

lemma mb_check_pkt: "mb_check (mb_pkt cmd b payload) = (SPIPROXY_OK, cmd, payload)"
  by (simp add: mb_check_def mb_pkt_def Let_def le16_def)

lemma mb_pkt_len_field:
  "un_le16 (mb_pkt cmd b payload ! 2) (mb_pkt cmd b payload ! 3) = of_nat (length (mb_pkt cmd b payload))"
  by (simp add: mb_pkt_def Let_def le16_def)

lemma pkt_words:
  assumes "mem_read pkt 0 n = p" and "m = (n + 3) div 4"
  shows "concat (map le32 (map (\<lambda>k. word_at pkt (4 * k)) [0..<m])) = p @ mem_read pkt n (4 * m - n)"
proof -
  have "concat (map le32 (map (\<lambda>k. word_at pkt (4 * k)) [0..<m])) = mem_read pkt 0 (4 * m)"
    using words_image [of pkt m] by (simp add: comp_def)
  also have "\<dots> = p @ mem_read pkt n (4 * m - n)"
    using words_split [of n m pkt] assms by simp
  finally show ?thesis .
qed

lemma mb_request_image:
  assumes n: "length payload = unat (mb_payload_len mb)" "length payload \<le> SPIPROXY_MB_MAX"
    and sl: "unat (mb_slice mb) < SLICE_COUNT"
    and rd: "mb_rd B (mb_slice mb) MB_FLAG v s = (Some x, s1)" and idle: "x AND MB_F_BUSY = 0"
  shows "\<exists>words padding pkt' v'.
    concat (map le32 words) = mb_pkt (mb_cmd mb) 0xff payload @ padding \<and> length padding < 4 \<and>
    mb_request B mb payload pkt v s =
      (case mb_wr_seq B (mb_slice mb)
              (zip (map (\<lambda>k. of_nat (MB_CMD_ADDR + k)) [0..<length words]) words) (s1\<lparr>mb_inflight := True\<rparr>) of
         (False, s2) \<Rightarrow> Some (Some SPIPROXY_EIO, pkt', v', s2\<lparr>mb_inflight := False\<rparr>)
       | (True, s2) \<Rightarrow>
           (case mb_ring B (mb_slice mb) v' s2 of (st, v'', s3) \<Rightarrow> Some (st, pkt', v'', s3)))"
proof -
  let ?n = "length payload" and ?sl = "mb_slice mb"
  let ?len = "of_nat MB_HDR_LEN + mb_payload_len mb + of_nat MB_CRC_LEN :: u16"
  obtain pkt' where p: "mb_build mb payload pkt = Some pkt'"
    and img: "mem_read pkt' 0 (6 + ?n) = mb_pkt (mb_cmd mb) 0xff payload"
    using mb_build_pkt [OF n] by blast
  have ul: "unat ?len = 6 + ?n" using n by (simp add: mb_len_unat)
  define m where "m = mb_wlen ?len div 4"
  have m: "m = (6 + ?n + 3) div 4" using ul n by (simp add: m_def mb_wlen_eq const_defs)
  define words where "words = map (\<lambda>k. word_at pkt' (4 * k)) [0..<m]"
  have w: "concat (map le32 words) =
      mb_pkt (mb_cmd mb) 0xff payload @ mem_read pkt' (6 + ?n) (4 * m - (6 + ?n))"
    unfolding words_def by (rule pkt_words [OF img m])
  have z: "zip (map (\<lambda>k. of_nat (MB_CMD_ADDR + k)) [0..<length words]) words =
      map (\<lambda>k. (of_nat (MB_CMD_ADDR + k), word_at pkt' (4 * k))) [0..<m]"
    by (simp add: words_def zip_map_map zip_same_conv_map)
  obtain ok s2 where seq: "mb_wr_seq B ?sl (map (\<lambda>k. (of_nat (MB_CMD_ADDR + k), word_at pkt' (4 * k))) [0..<m])
      (s1\<lparr>mb_inflight := True\<rparr>) = (ok, s2)" by fastforce
  have "\<forall>k \<in> set [0..<m]. 4 * k + 3 < PKT_SIZE"
    using ul n by (auto simp: m_def intro!: mb_word_in_pkt) (simp add: const_defs)
  from mb_put_seq [OF this seq] obtain v' where
    put: "mb_put B ?sl pkt' [0..<m] x (s1\<lparr>mb_inflight := True\<rparr>) = Some (ok, v', s2)" by blast
  have "mb_request B mb payload pkt v s =
      (case ok of False \<Rightarrow> Some (Some SPIPROXY_EIO, pkt', v', s2\<lparr>mb_inflight := False\<rparr>)
       | True \<Rightarrow> (case mb_ring B ?sl v' s2 of (st, v'', s3) \<Rightarrow> Some (st, pkt', v'', s3)))"
    using n sl p rd idle put by (auto simp: mb_request_def Let_def m_def split: prod.splits)
  then have "mb_request B mb payload pkt v s =
      (case mb_wr_seq B ?sl (zip (map (\<lambda>k. of_nat (MB_CMD_ADDR + k)) [0..<length words]) words)
              (s1\<lparr>mb_inflight := True\<rparr>) of
         (False, s2) \<Rightarrow> Some (Some SPIPROXY_EIO, pkt', v', s2\<lparr>mb_inflight := False\<rparr>)
       | (True, s2) \<Rightarrow> (case mb_ring B ?sl v' s2 of (st, v'', s3) \<Rightarrow> Some (st, pkt', v'', s3)))"
    unfolding z seq by simp
  moreover have "length (mem_read pkt' (6 + ?n) (4 * m - (6 + ?n))) < 4" using m by simp
  ultimately show ?thesis using w by blast
qed

end
