(* ===== verification/Dispatch.thy ===== *)
theory Dispatch
  imports Mailbox "HOL-Library.Sublist"
begin

text \<open>
  \<^verbatim>\<open>exec_item\<close>, \<^verbatim>\<open>exec_mailbox\<close> and \<^verbatim>\<open>drain_queues\<close>: the dispatcher, and the mailbox wait that
  re-enters it. The wait polls a flag that the device may never raise, so the two mutually
  recursive functions carry fuel; running out of fuel is the value \<open>Starved\<close>, distinct from
  the \<^term>\<open>None\<close> of undefined behaviour. \<open>exec_mailbox\<close> and \<open>exec_item\<close> take the wait loop as
  an argument, which \<open>drain_queues\<close> instantiates with its own.
\<close>

datatype 'a fueled = Ran 'a | Starved

definition ran :: "'a option \<Rightarrow> 'a fueled option" where
  "ran m = map_option Ran m"

type_synonym 'w waiter =
  "u8 \<Rightarrow> u64 \<Rightarrow> u32 \<Rightarrow> 'w daemon \<Rightarrow> (spiproxy_status option \<times> u32 \<times> 'w daemon) fueled option"

section \<open>Mailbox transactions\<close>

definition mb_await ::
    "'w waiter \<Rightarrow> 'w build \<Rightarrow> spiproxy_mb \<Rightarrow> mem \<Rightarrow> u32 \<Rightarrow> u32 \<Rightarrow> 'w daemon \<Rightarrow>
     (spiproxy_status \<times> u8 \<times> u8 list \<times> 'w daemon) fueled option" where
  "mb_await W B mb pkt v timeout s =
     do {
       let (t, s) = now_us (b_kernel B) s;
       let t_end = t + ucast timeout * 1000;
       r \<leftarrow> W (mb_slice mb) t_end v s;
       case r of
         Starved \<Rightarrow> Some Starved
       | Ran (Some e, v, s) \<Rightarrow> Some (Ran (e, mb_cmd mb, [], s))
       | Ran (None, v, s) \<Rightarrow> do {
           (st, cmd, resp, s) \<leftarrow> mb_finish B (mb_slice mb) pkt v s;
           Some (Ran (st, if st = SPIPROXY_OK then cmd else mb_cmd mb, resp, s))
         }
     }"

definition exec_mailbox ::
    "'w waiter \<Rightarrow> 'w build \<Rightarrow> spiproxy_mb \<Rightarrow> u8 list \<Rightarrow> 'w daemon \<Rightarrow>
     (spiproxy_status \<times> u8 \<times> u8 list \<times> 'w daemon) fueled option" where
  "exec_mailbox W B mb payload s =
     do {
       let pkt = k_stack_pkt (b_kernel B) (world s);
       let v = k_stack_v (b_kernel B) (world s);
       let timeout = (if mb_timeout_ms mb \<noteq> 0 then mb_timeout_ms mb else MB_TIMEOUT_MS);
       (st, pkt, v, s) \<leftarrow> mb_request B mb payload pkt v s;
       case st of
         Some e \<Rightarrow> Some (Ran (e, mb_cmd mb, [], s))
       | None \<Rightarrow> mb_await W B mb pkt v timeout s
     }"

definition exec_mb_item :: "'w waiter \<Rightarrow> 'w build \<Rightarrow> nat \<Rightarrow> 'w daemon \<Rightarrow> 'w daemon fueled option" where
  "exec_mb_item W B it s =
     (let c = q_c (pool s it); h = q_hdr (pool s it);
          mb = dec_mb (read_body it 0 sizeof_mb s);
          n = unat (mb_payload_len mb)
      in if body_len it s \<noteq> sizeof_mb + n then ran (send_resp B c h SPIPROXY_EINVAL [] s)
         else do {
           guard (sizeof_mb + n \<le> SPIPROXY_MSG_MAX);
           r \<leftarrow> exec_mailbox W B mb (read_body it sizeof_mb n s) s;
           case r of
             Starved \<Rightarrow> Some Starved
           | Ran (st, cmd, resp, s) \<Rightarrow> do {
               let mb = mb\<lparr>mb_cmd := cmd, mb_payload_len := of_nat (length resp)\<rparr>;
               let s = write_body it 0 (enc_mb mb) s;
               ran (send_resp B c h st (enc_mb mb @ (if st = SPIPROXY_OK then resp else [])) s)
             }
         })"

section \<open>The dispatcher\<close>

definition enter_item :: "nat \<Rightarrow> 'w daemon \<Rightarrow> 'w daemon" where
  "enter_item it s =
     (let c = cl s (q_c (pool s it))
      in s\<lparr>lctx_cid := c_id c, lctx_comm := c_comm c, lctx_seq := h_seq (q_hdr (pool s it)), lctx_tag := ''''\<rparr>)"

definition exec_item :: "'w waiter \<Rightarrow> 'w build \<Rightarrow> nat \<Rightarrow> 'w daemon \<Rightarrow> 'w daemon fueled option" where
  "exec_item W B it s =
     (let s = enter_item it s
      in case type_of_code (h_type (q_hdr (pool s it))) of
           Some SPIPROXY_READ \<Rightarrow> ran (exec_read_write B False it s)
         | Some SPIPROXY_WRITE \<Rightarrow> ran (exec_read_write B True it s)
         | Some SPIPROXY_BATCH \<Rightarrow> ran (exec_batch B it s)
         | Some SPIPROXY_CLAIM \<Rightarrow> ran (exec_claim B it s)
         | Some SPIPROXY_RELEASE \<Rightarrow> ran (exec_release B it s)
         | Some SPIPROXY_MAILBOX \<Rightarrow> exec_mb_item W B it s
         | Some SPIPROXY_STATS \<Rightarrow> ran (exec_stats B it s)
         | Some SPIPROXY_TRACE \<Rightarrow> ran (exec_trace B it s)
         | Some SPIPROXY_RESET \<Rightarrow> ran (exec_reset B it s)
         | _ \<Rightarrow> ran (send_resp B (q_c (pool s it)) (q_hdr (pool s it)) SPIPROXY_ENOSYS [] s))"

fun drain_queues :: "nat \<Rightarrow> 'w build \<Rightarrow> nat \<Rightarrow> 'w daemon \<Rightarrow> 'w daemon fueled option"
  and mb_wait :: "nat \<Rightarrow> 'w build \<Rightarrow> u8 \<Rightarrow> u64 \<Rightarrow> u32 \<Rightarrow> 'w daemon \<Rightarrow>
    (spiproxy_status option \<times> u32 \<times> 'w daemon) fueled option" where
  "drain_queues 0 B budget s = Some Starved"
| "drain_queues (Suc n) B budget s =
     (if budget = 0 then Some (Ran s)
      else do {
        r \<leftarrow> dequeue s;
        case r of
          None \<Rightarrow> Some (Ran s)
        | Some (it, s) \<Rightarrow> do {
            r \<leftarrow> exec_item (mb_wait n B) B it s;
            case r of
              Starved \<Rightarrow> Some Starved
            | Ran s \<Rightarrow> drain_queues n B (budget - 1) (free_item it s)
          }
      })"
| "mb_wait 0 B sl t_end v s = Some Starved"
| "mb_wait (Suc n) B sl t_end v s =
     (case mb_rd B sl MB_FLAG v s of
        (None, s) \<Rightarrow> Some (Ran (Some SPIPROXY_EIO, v, s\<lparr>mb_inflight := False\<rparr>))
      | (Some v, s) \<Rightarrow>
          if v AND MB_F_RESP \<noteq> 0 then Some (Ran (None, v, s))
          else
            (let (t, s) = now_us (b_kernel B) s
             in if t_end < t then
                  (let (ok, s) = mb_wr B sl MB_FLAG MB_CLR_REQ s
                   in Some (Ran (Some SPIPROXY_ETIMEDOUT, v, s\<lparr>mb_inflight := False\<rparr>)))
                else do {
                  r \<leftarrow> drain_queues n B 4 s;
                  case r of
                    Starved \<Rightarrow> Some Starved
                  | Ran s \<Rightarrow>
                      mb_wait n B sl t_end v (s\<lparr>world := k_usleep (b_kernel B) (b_poll_delay B) (world s)\<rparr>)
                }))"

section \<open>What running the queues does\<close>

text \<open>
  \<open>daemon_ok\<close> is what the handlers rely on: every item's length field is within its buffer, the
  cleanup count is within its array, and the texts fit. \<open>stable\<close> is what no handler changes.
\<close>

definition daemon_ok :: "'w daemon \<Rightarrow> bool" where
  "daemon_ok s \<longleftrightarrow> (\<forall>i. body_len i s \<le> SPIPROXY_MSG_MAX) \<and> claim_ncleanup s \<le> SPIPROXY_BATCH_MAX \<and> stats_ok s"

definition stable :: "'w daemon \<Rightarrow> 'w daemon \<Rightarrow> bool" where
  "stable s s' \<longleftrightarrow> tags_of s' = tags_of s \<and> slots_of s' = slots_of s \<and> conf_of s' = conf_of s \<and>
     stop s' = stop s \<and> (daemon_ok s \<longrightarrow> daemon_ok s')"

definition item_key :: "'w daemon \<Rightarrow> nat \<Rightarrow> int \<times> u8 \<times> u32" where
  "item_key s it =
     (c_fd (cl s (q_c (pool s it))), h_type (q_hdr (pool s it)) OR SPIPROXY_RESP, h_seq (q_hdr (pool s it)))"

definition reply_key :: "int \<times> u8 list \<Rightarrow> int \<times> u8 \<times> u32" where
  "reply_key m = (fst m, h_type (dec_hdr (snd m)), h_seq (dec_hdr (snd m)))"

definition qset :: "(nat \<Rightarrow> nat list) \<Rightarrow> nat multiset" where
  "qset Q = mset (Q 0 @ Q 1 @ Q 2)"

text \<open>
  \<open>serves L xs s s'\<close>: with the items \<open>L\<close> in flight, the queues went from \<open>Q\<close> to a part \<open>Q'\<close> of
  them, and the messages sent are one reply for each item that left and each of \<open>xs\<close>; the
  buffers of the other items in flight are untouched; and a new claim owner is the client of
  one of these items (\<open>owner_from\<close>).
\<close>

definition owner_from :: "nat set \<Rightarrow> 'w daemon \<Rightarrow> 'w daemon \<Rightarrow> bool" where
  "owner_from A s s' \<longleftrightarrow>
     claim_owner s' = None \<or> claim_owner s' = claim_owner s \<or> (\<exists>i \<in> A. claim_owner s' = Some (q_c (pool s i)))"

definition serves :: "nat list \<Rightarrow> nat list \<Rightarrow> 'w daemon \<Rightarrow> 'w daemon \<Rightarrow> bool" where
  "serves L xs s s' \<longleftrightarrow> stable s s' \<and>
     (\<forall>i \<in> set L - set xs. q_body (pool s' i) = q_body (pool s i)) \<and>
     (\<forall>F Q. sched_ok s F Q L \<longrightarrow> (\<exists>F' Q' ms. sched_ok s' F' Q' L \<and> (\<forall>q < 3. subseq (Q' q) (Q q)) \<and>
        sent s' = sent s @ ms \<and> owner_from (set_mset (qset Q + mset xs)) s s' \<and>
        image_mset reply_key (mset ms) + image_mset (item_key s) (qset Q') =
        image_mset (item_key s) (qset Q + mset xs)))"

lemma dec_hdr_append: "dec_hdr (enc_hdr h @ b) = h"
  using hdr.dec_enc [of h] by (simp add: dec_hdr_def nth_append hdr.length_enc const_defs)

lemma reply_key_reply_of [simp]: "reply_key (reply_of it st body s) = item_key s it"
  by (simp add: reply_key_def reply_of_def item_key_def resp_msg_def dec_hdr_append)

lemma stable_item_key: "stable s s' \<Longrightarrow> item_key s' = item_key s"
proof
  fix i assume st: "stable s s'"
  then have "slot_of \<circ> cl s' = slot_of \<circ> cl s" "tags_of s' i = tags_of s i"
    by (simp_all add: stable_def slots_of_def)
  moreover from this(1) have "slot_of (cl s' c) = slot_of (cl s c)" for c by (metis comp_apply)
  ultimately show "item_key s' i = item_key s i"
    by (simp add: item_key_def tags_of_def slot_of_def)
qed

lemma stable_tags:
  assumes "stable s s'"
  shows "q_c (pool s' i) = q_c (pool s i)" and "q_hdr (pool s' i) = q_hdr (pool s i)"
proof -
  have "tags_of s' i = tags_of s i" using assms by (simp add: stable_def)
  then show "q_c (pool s' i) = q_c (pool s i)" and "q_hdr (pool s' i) = q_hdr (pool s i)"
    by (simp_all add: tags_of_def)
qed

lemma stable_refl [simp, intro]: "stable s s"
  by (simp add: stable_def)

lemma stable_trans: "stable s s' \<Longrightarrow> stable s' s'' \<Longrightarrow> stable s s''"
  by (simp add: stable_def)

lemma run_frame_daemon_ok:
  "run_frame s s' \<Longrightarrow> claim_ncleanup s \<le> SPIPROXY_BATCH_MAX \<longrightarrow> claim_ncleanup s' \<le> SPIPROXY_BATCH_MAX \<Longrightarrow>
   stable s s'"
  by (auto simp: stable_def daemon_ok_def run_frame_tags stats_ok_run_frame) (auto simp: run_frame_def)

lemma subseq_set: "subseq xs ys \<Longrightarrow> set xs \<subseteq> set ys"
  by (induction rule: list_emb.induct) auto

lemma qset_subseq: "\<forall>q < 3. subseq (Q' q) (Q q) \<Longrightarrow> set_mset (qset Q') \<subseteq> set_mset (qset Q)"
  using subseq_set [of "Q' 0" "Q 0"] subseq_set [of "Q' 1" "Q 1"] subseq_set [of "Q' 2" "Q 2"]
  by (auto simp: qset_def)

lemma serves_trans:
  assumes a: "serves L xs s s1" and b: "serves L ys s1 s2"
  shows "serves L (xs @ ys) s s2"
  unfolding serves_def
proof (intro conjI allI impI)
  have k: "item_key s1 = item_key s" using a by (simp add: serves_def stable_item_key)
  show "stable s s2" using a b stable_trans by (auto simp: serves_def)
  show "\<forall>i \<in> set L - set (xs @ ys). q_body (pool s2 i) = q_body (pool s i)"
    using a b by (simp add: serves_def)
  fix F Q assume "sched_ok s F Q L"
  with a obtain F1 Q1 ms where 1: "sched_ok s1 F1 Q1 L" "\<forall>q < 3. subseq (Q1 q) (Q q)" "sent s1 = sent s @ ms"
    and o1: "owner_from (set_mset (qset Q + mset xs)) s s1" and k1:
    "image_mset reply_key (mset ms) + image_mset (item_key s) (qset Q1) = image_mset (item_key s) (qset Q + mset xs)"
    unfolding serves_def by blast
  with b obtain F2 Q2 ns where 2: "sched_ok s2 F2 Q2 L" "\<forall>q < 3. subseq (Q2 q) (Q1 q)" "sent s2 = sent s1 @ ns"
    and o2: "owner_from (set_mset (qset Q1 + mset ys)) s1 s2" and k2:
    "image_mset reply_key (mset ns) + image_mset (item_key s) (qset Q2) = image_mset (item_key s) (qset Q1 + mset ys)"
    unfolding serves_def k by blast
  have "image_mset reply_key (mset (ms @ ns)) + image_mset (item_key s) (qset Q2) =
      image_mset (item_key s) (qset Q + mset (xs @ ys))"
    using k1 k2 by (simp add: ac_simps)
  moreover have "owner_from (set_mset (qset Q + mset (xs @ ys))) s s2"
  proof -
    have "q_c (pool s1 i) = q_c (pool s i)" for i
      using a by (intro stable_tags) (simp add: serves_def)
    with o1 o2 qset_subseq [OF 1(2)] show ?thesis by (auto simp: owner_from_def)
  qed
  moreover have "\<forall>q < 3. subseq (Q2 q) (Q q)" using 1(2) 2(2) subseq_order.trans by blast
  moreover have "sent s2 = sent s @ ms @ ns" using 1(3) 2(3) by simp
  ultimately show "\<exists>F' Q' ms. sched_ok s2 F' Q' L \<and> (\<forall>q < 3. subseq (Q' q) (Q q)) \<and> sent s2 = sent s @ ms \<and>
      owner_from (set_mset (qset Q + mset (xs @ ys))) s s2 \<and>
      image_mset reply_key (mset ms) + image_mset (item_key s) (qset Q') =
      image_mset (item_key s) (qset Q + mset (xs @ ys))"
    using 2(1) by blast
qed

lemma servesI:
  assumes "stable s s'" and "\<forall>i \<in> set L - set xs. q_body (pool s' i) = q_body (pool s i)"
    and "run_frame s s'" and "sent s' = sent s @ ms" and "image_mset reply_key (mset ms) = image_mset (item_key s) (mset xs)"
    and "owner_from (set xs) s s'"
  shows "serves L xs s s'"
  unfolding serves_def
proof (intro conjI allI impI)
  fix F Q assume "sched_ok s F Q L"
  then have "sched_ok s' F Q L" using run_frame_sched_ok [OF assms(3)] by blast
  moreover have "owner_from (set_mset (qset Q + mset xs)) s s'" using assms(6) by (auto simp: owner_from_def)
  ultimately show "\<exists>F' Q' ms. sched_ok s' F' Q' L \<and> (\<forall>q < 3. subseq (Q' q) (Q q)) \<and> sent s' = sent s @ ms \<and>
      owner_from (set_mset (qset Q + mset xs)) s s' \<and>
      image_mset reply_key (mset ms) + image_mset (item_key s) (qset Q') = image_mset (item_key s) (qset Q + mset xs)"
    using assms(4,5) by (intro exI [of _ F] exI [of _ Q] exI [of _ ms]) simp
qed (use assms in auto)

lemma answers_serves: "answers it s s' \<Longrightarrow> serves L [it] s s'"
proof -
  assume a: "answers it s s'"
  then obtain st body where "sent s' = sent s @ [reply_of it st body s]" by (auto simp: answers_def)
  moreover from a have "stable s s'" by (intro run_frame_daemon_ok) (simp_all add: answers_def)
  ultimately show ?thesis
    using a by (intro servesI [where ms = "[reply_of it st body s]"]) (auto simp: answers_def others_def owner_from_def)
qed

lemma answers_served: "answers it s s' \<Longrightarrow> serves L [it] s s' \<and> (mb_inflight s' \<longrightarrow> mb_inflight s)"
  by (intro conjI answers_serves) (auto simp: answers_def)

lemma calm_serves:
  assumes "run_frame s s'" and "pool s' = pool s" and "sent s' = sent s" and "claim_of s' = claim_of s"
  shows "serves L [] s s'"
proof (rule servesI)
  show "stable s s'" using assms by (intro run_frame_daemon_ok) (simp_all add: claim_of_def)
qed (use assms in \<open>auto simp: owner_from_def claim_of_def\<close>)

lemma mbx_serves: "mbx_frame s s' \<Longrightarrow> serves L [] s s'"
  by (rule calm_serves) (simp_all add: mbx_frameD)

lemma enter_item_fields [simp]:
  "pool (enter_item it s) = pool s" "sent (enter_item it s) = sent s" "cl (enter_item it s) = cl s"
  "claim_of (enter_item it s) = claim_of s" "claim_ncleanup (enter_item it s) = claim_ncleanup s"
  "claim_owner (enter_item it s) = claim_owner s"
  "mb_inflight (enter_item it s) = mb_inflight s" "n_queued (enter_item it s) = n_queued s"
  by (simp_all add: enter_item_def Let_def claim_of_def)

lemma enter_item_run [simp]: "run_frame s (enter_item it s)"
  by (simp add: enter_item_def Let_def)

lemma enter_serves: "serves L [] s (enter_item it s)"
  by (rule calm_serves) simp_all

lemma serves_daemon_ok: "serves L xs s s' \<Longrightarrow> daemon_ok s \<Longrightarrow> daemon_ok s'"
  by (simp add: serves_def stable_def)

lemma serves_sched: "serves L xs s s' \<Longrightarrow> sched_ok s F Q L \<Longrightarrow> \<exists>F' Q'. sched_ok s' F' Q' L"
  unfolding serves_def by blast

definition ends :: "'a fueled option \<Rightarrow> ('a \<Rightarrow> bool) \<Rightarrow> bool" where
  "ends m Q = holds m (\<lambda>r. case r of Ran x \<Rightarrow> Q x | Starved \<Rightarrow> True)"

lemma ends_simps [wp_simps]:
  "ends (Some (Ran x)) Q = Q x" "ends (Some Starved) Q = True" "ends None Q = False"
  "ends (ran m) Q = holds m Q"
  "ends (Option.bind g f) Q = holds g (\<lambda>x. ends (f x) Q)"
  by (simp_all add: ends_def wp_simps ran_def) (cases m; simp add: wp_simps)

lemma ends_mono: "ends m P \<Longrightarrow> (\<And>x. P x \<Longrightarrow> Q x) \<Longrightarrow> ends m Q"
  unfolding ends_def by (erule holds_mono) (auto split: fueled.splits)

lemma holds_ends: "ends m P \<Longrightarrow> (\<And>x. P x \<Longrightarrow> ends (f (Ran x)) Q) \<Longrightarrow> ends (f Starved) Q \<Longrightarrow>
    holds m (\<lambda>r. ends (f r) Q)"
  unfolding ends_def [of m] by (erule holds_mono) (auto split: fueled.splits)

lemma ends_ran:
  assumes "ends m Q" and "m \<noteq> Some Starved"
  obtains x where "m = Some (Ran x)" and "Q x"
proof (cases m)
  case None
  with assms show ?thesis by (simp add: wp_simps)
next
  case (Some r)
  with assms that show ?thesis by (cases r) (simp_all add: wp_simps)
qed

text \<open>What \<open>exec_mailbox\<close> needs of the wait loop it is given.\<close>

definition wait_ok :: "'w waiter \<Rightarrow> bool" where
  "wait_ok W \<longleftrightarrow> (\<forall>L F Q sl t_end v s. sched_ok s F Q L \<longrightarrow> daemon_ok s \<longrightarrow>
     ends (W sl t_end v s) (\<lambda>(st, v', s'). serves L [] s s' \<and> (st \<noteq> None \<longrightarrow> \<not> mb_inflight s')))"

context spi_backend
begin

lemma mb_await_serves:
  assumes "wait_ok W" and "sched_ok s F Q L" and "daemon_ok s" and s1: "mbx_frame s s1"
  shows "ends (mb_await W B mb pkt v timeout s1) (\<lambda>(st, cmd, resp, s').
     serves L [] s s' \<and> \<not> mb_inflight s' \<and> length resp \<le> SPIPROXY_MB_MAX)"
proof -
  have fin: "holds (mb_finish B sl pkt v s2) (\<lambda>(st, cmd, resp, s'). serves L [] s s' \<and>
      \<not> mb_inflight s' \<and> length resp \<le> SPIPROXY_MB_MAX)" if "serves L [] s s2" for sl pkt v s2
    by (rule holds_mono [OF mb_finish_holds])
      (use that in \<open>auto dest: serves_trans [OF that mbx_serves]\<close>)
  obtain t s2 where n: "now_us (b_kernel B) s1 = (t, s2)" by fastforce
  have s2: "serves L [] s s2"
    using mbx_serves mbx_frame_trans [OF s1 io_mbx_frame [OF io_frame_now_us [OF n]]] by blast
  obtain F' Q' where q: "sched_ok s2 F' Q' L" using serves_sched [OF s2 assms(2)] by blast
  with assms(1) serves_daemon_ok [OF s2 assms(3)] have
    "ends (W sl t v s2) (\<lambda>(st, v', s'). serves L [] s2 s' \<and> (st \<noteq> None \<longrightarrow> \<not> mb_inflight s'))" for sl t v
    unfolding wait_ok_def by blast
  then have "ends (W sl t v s2) (\<lambda>(st, v', s'). serves L [] s s' \<and> (st \<noteq> None \<longrightarrow> \<not> mb_inflight s'))" for sl t v
    by (rule ends_mono) (use serves_trans [OF s2] in fastforce)
  note wait = this
  show ?thesis
    unfolding mb_await_def n Let_def prod.case ends_simps
    by (rule holds_ends [OF wait]) (auto simp: wp_simps split: option.splits intro!: holds_mono [OF fin])
qed

lemma exec_mailbox_serves:
  assumes "wait_ok W" and "sched_ok s F Q L" and "daemon_ok s"
  shows "ends (exec_mailbox W B mb payload s) (\<lambda>(st, cmd, resp, s').
     serves L [] s s' \<and> (mb_inflight s' \<longrightarrow> mb_inflight s) \<and> length resp \<le> SPIPROXY_MB_MAX)"
  unfolding exec_mailbox_def Let_def ends_simps
  by (rule holds_mono [OF mb_request_holds])
    (auto simp: wp_simps mbx_serves split: option.split if_splits
      intro!: ends_mono [OF mb_await_serves [OF assms]])

lemma exec_mb_item_serves:
  assumes "wait_ok W" and "sched_ok s F Q L" and "daemon_ok s"
  shows "ends (exec_mb_item W B it s) (\<lambda>s'. serves L [it] s s' \<and> (mb_inflight s' \<longrightarrow> mb_inflight s))"
proof -
  let ?mb = "dec_mb (read_body it 0 sizeof_mb s)"
  have reply: "holds (send_resp B (q_c (pool s it)) (q_hdr (pool s it)) st body (write_body it 0 bs s1))
      (\<lambda>s'. serves L [it] s s' \<and> (mb_inflight s' \<longrightarrow> mb_inflight s))"
    if s1: "serves L [] s s1" and "mb_inflight s1 \<longrightarrow> mb_inflight s" and "length body \<le> SPIPROXY_MSG_MAX"
    for st body bs s1
  proof -
    have "tags_of s1 it = tags_of s it" using s1 by (simp add: serves_def stable_def)
    then have "q_c (pool s it) = q_c (pool s1 it)" "q_hdr (pool s it) = q_hdr (pool s1 it)"
      by (simp_all add: tags_of_def)
    moreover have "holds (send_resp B (q_c (pool s1 it)) (q_hdr (pool s1 it)) st body (write_body it 0 bs s1))
        (replied it st body s1)"
      using that(3) by (intro reply_holds write_body_quiet)
    moreover have "serves L [it] s s' \<and> (mb_inflight s' \<longrightarrow> mb_inflight s)" if "replied it st body s1 s'" for s'
      using serves_trans [OF s1 answers_serves [OF replied_answers [OF that]]] that \<open>mb_inflight s1 \<longrightarrow> _\<close>
      by (simp add: replied_def)
    ultimately show ?thesis by (auto elim: holds_mono)
  qed
  have bl: "body_len it s \<le> SPIPROXY_MSG_MAX" using assms(3) by (simp add: daemon_ok_def)
  show ?thesis
  proof (cases "body_len it s = sizeof_mb + unat (mb_payload_len ?mb)")
    case False
    then show ?thesis
      using holds_mono [OF refuse_holds answers_served [OF replied_answers]]
      by (simp add: exec_mb_item_def wp_simps Let_def)
  next
    case True
    then show ?thesis
      unfolding exec_mb_item_def Let_def ends_simps using bl
      by (auto simp: wp_simps const_defs mbf.length_enc
          intro!: holds_ends [OF exec_mailbox_serves [OF assms]] holds_mono [OF reply])
  qed
qed

lemma answers_enter: "answers it (enter_item it s) s' \<Longrightarrow> answers it s s'"
  by (auto simp: answers_def reply_of_def others_def enter_item_def Let_def claim_of_def)

lemma exec_item_answers:
  assumes "sched_ok s F Q L" and "daemon_ok s"
    and "type_of_code (h_type (q_hdr (pool s it))) \<noteq> Some SPIPROXY_MAILBOX"
  shows "holds (exec_item W B it s) (\<lambda>r. \<exists>s'. r = Ran s' \<and> answers it s s')"
proof -
  let ?s = "enter_item it s"
  obtain F' Q' where q: "sched_ok ?s F' Q' L" using serves_sched [OF enter_serves assms(1)] by blast
  have ok: "daemon_ok ?s" using serves_daemon_ok [OF enter_serves assms(2)] .
  have n: "int32 (n_queued ?s)"
    using q sched_ok_count [OF q] by (simp add: sched_ok_def int32_def const_defs)
  have leaf: "holds (ran m) (\<lambda>r. \<exists>s'. r = Ran s' \<and> answers it s s')" if "holds m (answers it ?s)" for m
    using that by (auto simp: ran_def holds_iff dest: answers_enter)
  have refuse: "holds (send_resp B (q_c (pool s it)) (q_hdr (pool s it)) st [] ?s) (answers it ?s)" for st
    using holds_mono [OF refuse_holds [where s = ?s and it = it] replied_answers] by simp
  show ?thesis
    unfolding exec_item_def Let_def
    using ok n assms(3)
    by (auto simp: daemon_ok_def simp del: enter_item_fields(2-) split: option.split spiproxy_type.split
        intro!: leaf exec_read_write_holds exec_batch_holds exec_claim_holds exec_release_holds exec_reset_holds
          holds_mono [OF exec_stats_replied replied_answers] holds_mono [OF exec_trace_replied replied_answers]
          refuse)
qed

lemma exec_item_mailbox:
  "type_of_code (h_type (q_hdr (pool s it))) = Some SPIPROXY_MAILBOX \<Longrightarrow>
   exec_item W B it s = exec_mb_item W B it (enter_item it s)"
  by (simp add: exec_item_def Let_def)

lemma exec_item_serves:
  assumes W: "wait_ok W" and "sched_ok s F Q L" and "daemon_ok s"
  shows "ends (exec_item W B it s) (\<lambda>s'. serves L [it] s s' \<and> (mb_inflight s' \<longrightarrow> mb_inflight s))"
proof (cases "type_of_code (h_type (q_hdr (pool s it))) = Some SPIPROXY_MAILBOX")
  case True
  obtain F' Q' where q: "sched_ok (enter_item it s) F' Q' L"
    using serves_sched [OF enter_serves assms(2)] by blast
  from exec_mb_item_serves [OF W q serves_daemon_ok [OF enter_serves assms(3)], of it] show ?thesis
    unfolding exec_item_mailbox [OF True]
    by (rule ends_mono) (use serves_trans [OF enter_serves] in fastforce)
next
  case False
  show ?thesis
    unfolding ends_def
    by (rule holds_mono [OF exec_item_answers [OF assms(2,3) False]]) (auto dest: answers_served)
qed

end

lemma subseq_remove1: "subseq (remove1 x xs) xs"
  by (induction xs) auto

lemma qset_remove1:
  "q < 3 \<Longrightarrow> it \<in> set (Q q) \<Longrightarrow> add_mset it (qset (Q(q := remove1 it (Q q)))) = qset Q"
  unfolding less_3 by (auto simp: qset_def)

lemma relinked_stable: "relinked s s' \<Longrightarrow> stable s s' \<and> sent s' = sent s \<and> mb_inflight s' = mb_inflight s"
proof -
  assume "relinked s s'"
  then obtain h t p f n where s': "s' = s\<lparr>qh := h, qt := t, pool := p, freel := f, n_queued := n\<rparr>"
    and i: "item_of s' = item_of s" by (rule relinkedE)
  have "item_of s' j = item_of s j" for j using i by simp
  then have hdr: "q_c (pool s' j) = q_c (pool s j)" "q_hdr (pool s' j) = q_hdr (pool s j)" for j
    by (simp_all add: item_of_def)
  then have tags: "tags_of s' = tags_of s" and len: "body_len j s' = body_len j s" for j
    by (simp_all add: tags_of_def body_len_def fun_eq_iff)
  have "stats_ok s' = stats_ok s" "claim_ncleanup s' = claim_ncleanup s"
    unfolding s' by (simp_all add: stats_ok_def rst_text_def)
  with tags len show ?thesis
    by (auto simp: stable_def daemon_ok_def) (simp_all add: s' slots_of_def conf_of_def)
qed

lemma relinked_owner: "relinked s s' \<Longrightarrow> claim_owner s' = claim_owner s"
  by (auto elim!: relinkedE)

lemma relinked_claim: "relinked s s' \<Longrightarrow> claim_of s' = claim_of s"
  by (auto simp: claim_of_def elim!: relinkedE)

lemma relinked_world: "relinked s s' \<Longrightarrow> world s' = world s \<and> mb_inflight s' = mb_inflight s \<and> rst_fd s' = rst_fd s"
  by (auto elim!: relinkedE)

lemma relinked_body: "relinked s s' \<Longrightarrow> q_body (pool s' i) = q_body (pool s i)"
  by (auto simp: item_of_def elim!: relinkedE dest: fun_cong [of _ _ i])

lemma sched_ok_unique:
  assumes "sched_ok s F Q L" and "sched_ok s F' Q' L'" and "q < 3"
  shows "Q' q = Q q"
proof (rule path_unique)
  show "path (nexts s) (qh s q) (Q' q) None" "path (nexts s) (qh s q) (Q q) None"
    using assms by (simp_all add: sched_ok_def links_def chained_def)
qed

lemma dequeue_taken:
  assumes "sched_ok s F Q L" and "dequeue s = Some (Some (it, s1))"
  obtains q where "q < 3" and "it \<in> set (Q q)" and "sched_ok s1 F (Q(q := remove1 it (Q q))) (it # L)" and "relinked s s1"
proof -
  from dequeue_holds [OF assms(1)] assms(2) obtain q where
    p: "pick_spec (item_eligible s) Q [0, 1, 2] = Some (q, it)"
    and "sched_ok s1 F (Q(q := remove1 it (Q q))) (it # L)" "relinked s s1"
    by (auto simp: wp_simps split: option.splits)
  moreover have "q < 3" "it \<in> set (Q q)" using pick_spec_mem [OF p] by auto
  ultimately show thesis by (blast intro: that)
qed

lemma drain_step_accounts:
  assumes ok: "sched_ok s F Q L" and d: "dequeue s = Some (Some (it, s1))" and e: "serves (it # L) [it] s1 s2"
  shows "\<exists>F' Q' ms. sched_ok (free_item it s2) F' Q' L \<and> (\<forall>q < 3. subseq (Q' q) (Q q)) \<and>
    sent (free_item it s2) = sent s @ ms \<and> owner_from (set_mset (qset Q + mset [])) s (free_item it s2) \<and>
    image_mset reply_key (mset ms) + image_mset (item_key s) (qset Q') = image_mset (item_key s) (qset Q + mset [])"
proof -
  obtain q where q: "q < 3" "it \<in> set (Q q)" and s1: "sched_ok s1 F (Q(q := remove1 it (Q q))) (it # L)" and r1: "relinked s s1"
    using dequeue_taken [OF ok d] .
  let ?Q = "Q(q := remove1 it (Q q))"
  have r3: "relinked s2 (free_item it s2)" by simp
  note st = relinked_stable [OF r1] relinked_stable [OF r3]
  obtain F' Q' ms where 2: "sched_ok s2 F' Q' (it # L)" "\<forall>q' < 3. subseq (Q' q') (?Q q')" "sent s2 = sent s1 @ ms"
    and own: "owner_from (set_mset (qset ?Q + mset [it])) s1 s2" and keys:
    "image_mset reply_key (mset ms) + image_mset (item_key s1) (qset Q') = image_mset (item_key s1) (qset ?Q + mset [it])"
    using e s1 unfolding serves_def by blast
  have Q: "qset ?Q + mset [it] = qset Q" using qset_remove1 [where Q = Q, OF q] by simp
  have "q_c (pool s1 i) = q_c (pool s i)" for i using st(1) by (intro stable_tags) simp
  then have "owner_from (set_mset (qset Q + mset [])) s (free_item it s2)"
    using own relinked_owner [OF r1] relinked_owner [OF r3] unfolding Q by (auto simp: owner_from_def)
  moreover have "subseq (?Q q') (Q q')" for q' by (simp add: subseq_remove1)
  then have "\<forall>q' < 3. subseq (Q' q') (Q q')" using 2(2) subseq_order.trans by blast
  moreover have "sent (free_item it s2) = sent s @ ms" using st 2(3) by simp
  moreover have "item_key s1 = item_key s" using st(1) by (simp add: stable_item_key)
  then have "image_mset reply_key (mset ms) + image_mset (item_key s) (qset Q') = image_mset (item_key s) (qset Q + mset [])"
    using keys unfolding Q by simp
  ultimately show ?thesis using free_item_sched_ok [OF 2(1)] by blast
qed

lemma drain_step_serves:
  assumes ok: "sched_ok s F Q L"
    and d: "dequeue s = Some (Some (it, s1))" and e: "serves (it # L) [it] s1 s2"
  shows "serves L [] s (free_item it s2)"
  unfolding serves_def
proof (intro conjI allI impI)
  obtain q where s1: "sched_ok s1 F (Q(q := remove1 it (Q q))) (it # L)" and r1: "relinked s s1"
    using dequeue_taken [OF ok d] .
  have r3: "relinked s2 (free_item it s2)" by simp
  show "stable s (free_item it s2)"
    using relinked_stable [OF r1] relinked_stable [OF r3] e by (meson serves_def stable_trans)
  have "it \<notin> set L"
    using s1 by (auto simp: sched_ok_def dest!: links_chained chained_distinct)
  then show "\<forall>i \<in> set L - set []. q_body (pool (free_item it s2) i) = q_body (pool s i)"
    using e relinked_body [OF r1] relinked_body [OF r3] by (auto simp: serves_def)
qed (rule drain_step_accounts [OF _ d e])

lemma serves_refl [simp, intro]: "serves L [] s s"
  by (rule calm_serves) simp_all

context spi_backend
begin

lemma drain_queues_step:
  assumes W: "wait_ok (mb_wait n B)"
    and rec: "\<And>F Q L b s. sched_ok s F Q L \<Longrightarrow> daemon_ok s \<Longrightarrow>
      ends (drain_queues n B b s) (\<lambda>s'. serves L [] s s' \<and> (mb_inflight s' \<longrightarrow> mb_inflight s))"
    and ok: "sched_ok s F Q L" "daemon_ok s"
  shows "ends (drain_queues (Suc n) B b s) (\<lambda>s'. serves L [] s s' \<and> (mb_inflight s' \<longrightarrow> mb_inflight s))"
proof (cases "b = 0 \<or> dequeue s = Some None")
  case True
  then show ?thesis by (auto simp: wp_simps)
next
  case False
  with dequeue_holds [OF ok(1)] obtain it s1 q where d: "dequeue s = Some (Some (it, s1))"
    and s1: "sched_ok s1 F (Q(q := remove1 it (Q q))) (it # L)" and r: "relinked s s1"
    by (auto simp: holds_iff split: option.splits)
  have ok1: "daemon_ok s1" and mb1: "mb_inflight s1 = mb_inflight s"
    using relinked_stable [OF r] ok(2) by (auto simp: stable_def)
  have rest: "ends (drain_queues n B b' (free_item it s2)) (\<lambda>s'. serves L [] s s' \<and> (mb_inflight s' \<longrightarrow> mb_inflight s))"
    if s2: "serves (it # L) [it] s1 s2" and mb2: "mb_inflight s2 \<longrightarrow> mb_inflight s1" for b' s2
  proof -
    have f: "serves L [] s (free_item it s2)" using ok(1) d s2 by (rule drain_step_serves)
    obtain F' Q' where "sched_ok (free_item it s2) F' Q' L" using serves_sched [OF f ok(1)] by blast
    from rec [OF this serves_daemon_ok [OF f ok(2)]] show ?thesis
      by (rule ends_mono)
        (use serves_trans [OF f] mb1 mb2 relinked_stable [OF free_item_relinked, of s2 it] in fastforce)
  qed
  show ?thesis
    using False
    by (auto simp: d wp_simps intro!: holds_ends [OF exec_item_serves [OF W s1 ok1]] rest)
qed

lemma mb_wait_step:
  assumes W: "wait_ok (mb_wait n B)"
    and rec: "\<And>F Q L b s. sched_ok s F Q L \<Longrightarrow> daemon_ok s \<Longrightarrow>
      ends (drain_queues n B b s) (\<lambda>s'. serves L [] s s' \<and> (mb_inflight s' \<longrightarrow> mb_inflight s))"
  shows "wait_ok (mb_wait (Suc n) B)"
  unfolding wait_ok_def
proof (intro allI impI)
  fix L F Q sl t_end v and s :: "'w daemon"
  assume ok: "sched_ok s F Q L" "daemon_ok s"
  let ?post = "\<lambda>(st, v', s'). serves L [] s s' \<and> (st \<noteq> None \<longrightarrow> \<not> mb_inflight s')"
  obtain r s1 where r: "mb_rd B sl MB_FLAG v s = (r, s1)" by fastforce
  obtain t s2 where t: "now_us (b_kernel B) s1 = (t, s2)" by fastforce
  obtain o2 s3 where w: "mb_wr B sl MB_FLAG MB_CLR_REQ s2 = (o2, s3)" by fastforce
  have f1: "mbx_frame s s1" using mb_rd_frame [OF r] by simp
  have f2: "mbx_frame s s2" using mbx_frame_trans [OF f1 io_mbx_frame [OF io_frame_now_us [OF t]]] .
  have f3: "mbx_frame s s3" using mbx_frame_trans [OF f2] mb_wr_frame [OF w] by blast
  have again: "ends (mb_wait n B sl t_end x (s4\<lparr>world := u\<rparr>)) ?post" if s4: "serves L [] s s4" for x s4 u
  proof -
    have s5: "serves L [] s (s4\<lparr>world := u\<rparr>)"
      using serves_trans [OF s4 calm_serves, of "s4\<lparr>world := u\<rparr>"] by (simp add: claim_of_def)
    obtain F' Q' where "sched_ok (s4\<lparr>world := u\<rparr>) F' Q' L" using serves_sched [OF s5 ok(1)] by blast
    with W serves_daemon_ok [OF s5 ok(2)] have
      "ends (mb_wait n B sl t_end x (s4\<lparr>world := u\<rparr>)) (\<lambda>(st, v', s'). serves L [] (s4\<lparr>world := u\<rparr>) s' \<and>
         (st \<noteq> None \<longrightarrow> \<not> mb_inflight s'))"
      unfolding wait_ok_def by blast
    then show ?thesis by (rule ends_mono) (use serves_trans [OF s5] in fastforce)
  qed
  obtain F' Q' where q: "sched_ok s2 F' Q' L" using serves_sched [OF mbx_serves [OF f2] ok(1)] by blast
  have drain: "ends (drain_queues n B 4 s2) (serves L [] s)"
    by (rule ends_mono [OF rec [OF q serves_daemon_ok [OF mbx_serves [OF f2] ok(2)]]])
      (use serves_trans [OF mbx_serves [OF f2]] in fastforce)
  show "ends (mb_wait (Suc n) B sl t_end v s) ?post"
    using f1 f3 by (auto simp: r t w Let_def wp_simps mbx_serves split: option.split
        intro!: holds_ends [OF drain] ends_mono [OF again])
qed

lemma drain_wait_serves:
  "(\<forall>F Q L b s. sched_ok s F Q L \<longrightarrow> daemon_ok s \<longrightarrow>
     ends (drain_queues n B b s) (\<lambda>s'. serves L [] s s' \<and> (mb_inflight s' \<longrightarrow> mb_inflight s))) \<and>
   wait_ok (mb_wait n B)"
proof (induction n)
  case 0
  then show ?case by (simp add: wait_ok_def wp_simps)
next
  case (Suc n)
  then show ?case using drain_queues_step mb_wait_step by blast
qed

lemmas drain_serves = drain_wait_serves [THEN conjunct1, rule_format]
lemmas mb_wait_ok = drain_wait_serves [THEN conjunct2]

text \<open>One turn of the scheduler with a request other than a mailbox one.\<close>

lemma plain_turn:
  assumes ok: "sched_ok s F Q L" "daemon_ok s" and p: "pick_spec (item_eligible s) Q [0, 1, 2] = Some (q, it)"
    and ty: "type_of_code (h_type (q_hdr (pool s it))) \<noteq> Some SPIPROXY_MAILBOX"
  obtains s1 s2 where "dequeue s = Some (Some (it, s1))" and "relinked s s1" and "daemon_ok s1"
    and "sched_ok s1 F (Q(q := remove1 it (Q q))) (it # L)"
    and "exec_item W B it s1 = Some (Ran s2)" and "answers it s1 s2" and "relinked s2 (free_item it s2)"
    and "sched_ok (free_item it s2) (it # F) (Q(q := remove1 it (Q q))) L" and "stable s (free_item it s2)"
    and "\<And>j. j \<noteq> it \<Longrightarrow> q_body (pool (free_item it s2) j) = q_body (pool s j)"
proof -
  let ?Q = "Q(q := remove1 it (Q q))"
  from dequeue_holds [OF ok(1)] p obtain s1 where d: "dequeue s = Some (Some (it, s1))"
    and s1: "sched_ok s1 F ?Q (it # L)" and r: "relinked s s1" by (auto simp: holds_iff)
  have st1: "stable s s1" using relinked_stable [OF r] by simp
  with ok(2) have ok1: "daemon_ok s1" by (simp add: stable_def)
  have "type_of_code (h_type (q_hdr (pool s1 it))) \<noteq> Some SPIPROXY_MAILBOX" using ty stable_tags [OF st1] by simp
  then obtain s2 where x: "exec_item W B it s1 = Some (Ran s2)" and a: "answers it s1 s2"
    using exec_item_answers [OF s1 ok1, of it W] by (auto simp: holds_iff)
  have rf: "run_frame s1 s2" and oth: "others it s1 s2" using a by (simp_all add: answers_def)
  have st2: "stable s1 s2" using answers_serves [OF a, of "it # L"] by (simp add: serves_def)
  have s2: "sched_ok s2 F ?Q (it # L)" using s1 run_frame_sched_ok [OF rf] by blast
  have r3: "relinked s2 (free_item it s2)" by simp
  have "stable s (free_item it s2)"
    using stable_trans [OF stable_trans [OF st1 st2]] relinked_stable [OF r3] by blast
  moreover have "q_body (pool (free_item it s2) j) = q_body (pool s j)" if "j \<noteq> it" for j
    using oth that relinked_body [OF r] relinked_body [OF r3] by (simp add: others_def)
  ultimately show ?thesis using that [OF d r ok1 s1 x a r3 free_item_sched_ok [OF s2]] by blast
qed

end

end
