(* ===== verification/Isolation.thy ===== *)
theory Isolation
  imports Dispatch
begin

text \<open>
  The mailbox guard: while a transaction is in flight, a client's register operation in the
  mailbox range is refused before it reaches the bus. The locale \<open>guarded_world\<close> states this for
  any property \<open>P\<close> of the outside world that only accesses to the mailbox range could break, as
  long as MMD numbers are \<open>plain\<close>; every handler but the mailbox one preserves it, and so does
  running the queues.
\<close>

text \<open>The operations of a register request use plain MMD numbers only.\<close>

definition plain_item :: "(u8 \<Rightarrow> bool) \<Rightarrow> nat \<Rightarrow> 'w daemon \<Rightarrow> bool" where
  "plain_item plain it s \<longleftrightarrow>
     (\<forall>i. Suc i * sizeof_op \<le> body_len it s \<longrightarrow> plain (o_mmd (dec_op (read_body it (i * sizeof_op) sizeof_op s))))"

text \<open>Requests that leave the mailbox alone: no mailbox request, no reset pulse, plain operations.\<close>

definition harmless :: "(u8 \<Rightarrow> bool) \<Rightarrow> nat \<Rightarrow> 'w daemon \<Rightarrow> bool" where
  "harmless plain it s \<longleftrightarrow>
     type_of_code (h_type (q_hdr (pool s it))) \<noteq> Some SPIPROXY_MAILBOX \<and> plain_item plain it s"

text \<open>A property of the outside world that reading the clock keeps.\<close>

locale clocked_world = spi_backend B for B :: "'w build" +
  fixes P :: "'w \<Rightarrow> bool"
  assumes P_clock: "P w \<Longrightarrow> P (snd (k_clock (b_kernel B) w))"
begin

definition in_P :: "'w daemon \<Rightarrow> bool" where
  "in_P s \<longleftrightarrow> P (world s)"

lemma in_P_now_us: "now_us (b_kernel B) s = (t, s') \<Longrightarrow> in_P s \<Longrightarrow> in_P s'"
  using P_clock [of "world s"] by (auto simp: in_P_def now_us_def split: prod.splits)

lemma in_P_trace_v: "in_P s \<Longrightarrow> in_P (trace_v (b_kernel B) p t s)"
  using P_clock [of "world s"] by (auto simp: in_P_def trace_v_def now_us_def split: prod.splits)

lemma in_P_log: "in_P s \<Longrightarrow> in_P (log_trace (b_kernel B) t s)"
  and in_P_log_msg: "in_P s \<Longrightarrow> in_P (log_msg (b_kernel B) p t s)"
  and in_P_warn: "in_P s \<Longrightarrow> in_P (warn_line (b_kernel B) t s)"
  by (auto simp: log_trace_def log_msg_def warn_line_def intro!: in_P_trace_v) (simp_all add: in_P_def)

lemma in_P_trace_add: "in_P s \<Longrightarrow> in_P (trace_add (b_kernel B) c p s)"
  using P_clock [of "world s"] by (auto simp: in_P_def trace_add_def now_us_def Let_def split: prod.splits)

lemma in_P_upd:
  "in_P (s\<lparr>page_owner := a\<rparr>) = in_P s" "in_P (s\<lparr>cor_last := b\<rparr>) = in_P s"
  "in_P (s\<lparr>rd_ring := d\<rparr>) = in_P s" "in_P (s\<lparr>rd_w := e\<rparr>) = in_P s"
  "in_P (s\<lparr>claim_owner := f\<rparr>) = in_P s" "in_P (s\<lparr>claim_ncleanup := g\<rparr>) = in_P s"
  "in_P (s\<lparr>claim_deadline := h\<rparr>) = in_P s" "in_P (s\<lparr>claim_cleanup := i\<rparr>) = in_P s"
  "in_P (s\<lparr>mb_inflight := j\<rparr>) = in_P s" "in_P (s\<lparr>cl := k\<rparr>) = in_P s"
  "in_P (s\<lparr>sent := l\<rparr>) = in_P s" "in_P (write_body it off bs s) = in_P s"
  "in_P (add_n_ops c n s) = in_P s" "in_P (enter_item it s) = in_P s"
  by (simp_all add: in_P_def write_body_def add_n_ops_def enter_item_def Let_def)

lemma in_P_lint_page: "in_P s \<Longrightarrow> returns (lint_page (b_kernel B) p s) in_P"
  by (auto simp: lint_page_def wp_simps Let_def in_P_upd in_P_warn split: option.splits)

lemma in_P_lint_cor: "in_P s \<Longrightarrow> in_P (lint_cor (b_kernel B) R now p s)"
  by (auto simp: lint_cor_def Let_def in_P_upd in_P_warn)

lemma in_P_lint_rmw: "in_P s \<Longrightarrow> in_P (lint_rmw (b_kernel B) now p s)"
  by (auto simp: lint_rmw_def Let_def in_P_upd in_P_warn split: option.splits)

lemma in_P_lint_op:
  assumes "in_P s"
  shows "returns (lint_op (b_kernel B) R p s) in_P"
proof -
  obtain t s1 where t: "now_us (b_kernel B) s = (t, s1)" by fastforce
  show ?thesis
    by (auto simp: lint_op_def t wp_simps
        intro!: returns_mono [OF in_P_lint_page [OF in_P_now_us [OF t assms]]] in_P_lint_rmw in_P_lint_cor)
qed

text \<open>An operation that reaches the bus keeps what the bus access has kept.\<close>

lemma exec_op_world:
  assumes "unat (o_slice p) < SLICE_COUNT" and "\<not> (mb_inflight s \<and> in_mb_guard p \<and> c \<noteq> None)"
    and b: "bus_access B p s = (ok, p1, s1)" and P: "P (world s1)"
  shows "\<exists>s'. exec_op B c p s = Some (if ok then SPIPROXY_OK else SPIPROXY_EIO, p1, s') \<and> io_frame s1 s' \<and> P (world s')"
proof -
  obtain s' where e: "exec_op B c p s = Some (if ok then SPIPROXY_OK else SPIPROXY_EIO, p1, s')" and f: "io_frame s1 s'"
    using exec_op_bus [OF assms(1-3)] by blast
  have "returns (if ok then lint_op (b_kernel B) (b_regs B) p1 (trace_add (b_kernel B) c p1 s1)
      else Some (trace_add (b_kernel B) c p1 s1)) in_P"
    using P by (auto simp: wp_simps in_P_def intro!: in_P_lint_op in_P_trace_add [unfolded in_P_def])
  then have "returns (if ok then lint_op (b_kernel B) (b_regs B) p1 (trace_add (b_kernel B) c p1 s1)
      else Some (trace_add (b_kernel B) c p1 s1))
      (\<lambda>s3. in_P (if log_sink s3 then log_debug (b_kernel B) (tx s3) s3 else s3))" for tx
    by (rule returns_mono) (auto intro: in_P_log)
  then have "returns (exec_op B c p s) (\<lambda>(st, p', s'). in_P s')"
    using assms(1,2) by (auto simp: exec_op_def b wp_simps Let_def)
  with e f show ?thesis by (simp add: returns_iff in_P_def)
qed

end

text \<open>One that sending a message keeps too: the requests without register access keep it.\<close>

locale sending_world = clocked_world B P for B :: "'w build" and P +
  assumes P_send: "P w \<Longrightarrow> P (snd (k_send (b_kernel B) fd m w))"
begin

lemma P_send': "k_send (b_kernel B) fd m w = (rc, w') \<Longrightarrow> P w \<Longrightarrow> P w'"
  using P_send [of w fd m] by simp

lemma in_P_send_resp: "in_P s \<Longrightarrow> returns (send_resp B c h st body s) in_P"
  by (auto simp: send_resp_def wp_simps Let_def in_P_def split: prod.splits
      intro!: in_P_log [unfolded in_P_def] dest: P_send')

lemma in_P_claim: "in_P s \<Longrightarrow> returns (exec_claim B it s) in_P"
  by (auto simp: exec_claim_def wp_simps Let_def split: prod.splits
      intro!: in_P_send_resp, auto simp: in_P_upd dest!: in_P_now_us intro!: in_P_log)

lemma in_P_release: "in_P s \<Longrightarrow> returns (exec_release B it s) in_P"
  by (auto simp: exec_release_def claim_end_def wp_simps Let_def split: option.splits
      intro!: in_P_send_resp, auto simp: in_P_upd intro!: in_P_log)

lemma in_P_stats: "in_P s \<Longrightarrow> returns (exec_stats B it s) in_P"
  by (auto simp: exec_stats_def wp_simps intro!: returns_all in_P_send_resp)

lemma in_P_trace: "in_P s \<Longrightarrow> returns (exec_trace B it s) in_P"
  by (auto simp: exec_trace_def wp_simps Let_def intro!: returns_all in_P_send_resp)

lemma in_P_reset: "in_P s \<Longrightarrow> rst_fd s < 0 \<Longrightarrow> returns (exec_reset B it s) in_P"
  by (auto simp: exec_reset_def wp_simps Let_def intro!: in_P_send_resp)

lemma send_resp_keeps_P: "P (world s) \<Longrightarrow> returns (send_resp B c h st body s) (\<lambda>s'. P (world s'))"
  using in_P_send_resp unfolding in_P_def by blast

end

text \<open>One that also, during a transaction, accesses outside the mailbox keep.\<close>

locale guarded_world = sending_world B P for B :: "'w build" and P +
  fixes plain :: "u8 \<Rightarrow> bool"
  assumes P_write: "P (world s) \<Longrightarrow> mb_inflight s \<Longrightarrow> plain mmd \<Longrightarrow>
      \<not> (mmd = MMD_GLOBAL \<and> MB_GUARD_LO \<le> reg \<and> reg \<le> MB_GUARD_HI) \<Longrightarrow>
      P (world (snd (b_write_reg B sl mmd reg v s)))"
    and P_read: "P (world s) \<Longrightarrow> mb_inflight s \<Longrightarrow> plain mmd \<Longrightarrow>
      \<not> (mmd = MMD_GLOBAL \<and> MB_GUARD_LO \<le> reg \<and> reg \<le> MB_GUARD_HI) \<Longrightarrow>
      P (world (snd (b_read_reg B sl mmd reg s)))"
begin

lemma in_P_exec_op:
  assumes "in_P s" and "mb_inflight s" and "plain (o_mmd p)"
  shows "returns (exec_op B (Some c) p s) (\<lambda>(st, p', s'). in_P s')"
proof (cases "SLICE_COUNT \<le> unat (o_slice p) \<or> in_mb_guard p")
  case True
  then show ?thesis using assms by (auto simp: exec_op_def wp_simps)
next
  case False
  obtain ok p1 s1 where acc: "bus_access B p s = (ok, p1, s1)" by (cases "bus_access B p s")
  have "P (world s1)"
    using acc False assms P_write [of s "o_mmd p" "o_reg p" "o_slice p" "o_val p"]
      P_read [of s "o_mmd p" "o_reg p" "o_slice p"]
    by (auto simp: bus_access_def in_P_def in_mb_guard_def Let_def split: if_splits prod.splits option.splits)
  with False exec_op_world [OF _ _ acc, of "Some c"] show ?thesis
    by (auto simp: returns_iff in_P_def)
qed

lemma in_P_read_write:
  "in_P s \<Longrightarrow> mb_inflight s \<Longrightarrow> plain_item plain it s \<Longrightarrow> returns (exec_read_write B wr it s) in_P"
  by (auto simp: exec_read_write_def wp_simps Let_def in_P_upd plain_item_def
      intro!: returns_mono [OF in_P_exec_op] in_P_send_resp)

lemma in_P_batch_loop:
  "in_P s \<Longrightarrow> mb_inflight s \<Longrightarrow> distinct is \<Longrightarrow>
   \<forall>i \<in> set is. plain (o_mmd (dec_op (read_body it (i * sizeof_op) sizeof_op s))) \<Longrightarrow>
   returns (batch_loop B it is k s) (\<lambda>(st, k', s'). in_P s')"
proof (induction "is" arbitrary: k s)
  case Nil
  then show ?case by (simp add: wp_simps)
next
  case (Cons i "is")
  let ?p = "dec_op (read_body it (i * sizeof_op) sizeof_op s)"
  have op: "returns (exec_op B (Some c) ?p s) (\<lambda>(st, p', s'). in_P s' \<and> io_frame s s')" for c
    using in_P_exec_op [of s ?p c] exec_op_holds [of "Some c" ?p s] Cons.prems
    by (auto simp: returns_iff holds_iff)
  have wb: "mb_inflight (write_body it off bs s1) = mb_inflight s1" for off bs s1
    by (simp add: write_body_def)
  have rest: "read_body it (j * sizeof_op) sizeof_op (write_body it (i * sizeof_op) (enc_op p) s1) =
      read_body it (j * sizeof_op) sizeof_op s" if "io_frame s s1" "j \<in> set is" for j p s1
    using Cons.prems(3) that opf.fetch_store_disjoint [of i j]
    by (auto simp: read_body_def write_body_def io_frame_iff)
  show ?case
    using Cons.prems
    by (auto simp: wp_simps Let_def in_P_upd wb rest io_frame_iff intro!: returns_mono [OF op] Cons.IH)
qed

lemma in_P_batch:
  assumes "in_P s" and "mb_inflight s" and "plain_item plain it s"
  shows "returns (exec_batch B it s) in_P"
proof -
  have "plain (o_mmd (dec_op (read_body it (i * sizeof_op) sizeof_op s)))" if "i < body_len it s div sizeof_op" for i
  proof -
    have "Suc i * sizeof_op \<le> body_len it s div sizeof_op * sizeof_op" using that by (intro mult_le_mono1) simp
    then have "Suc i * sizeof_op \<le> body_len it s" by (rule order_trans) simp
    with assms(3) show ?thesis by (simp add: plain_item_def)
  qed
  then have loop: "returns (batch_loop B it [0..<body_len it s div sizeof_op] 0 s) (\<lambda>(st, k', s'). in_P s')"
    using assms(1,2) by (intro in_P_batch_loop) auto
  show ?thesis
    using assms(1)
    by (auto simp: exec_batch_def wp_simps Let_def in_P_upd intro!: returns_mono [OF loop] in_P_send_resp)
qed

text \<open>Every request but a mailbox one.\<close>

lemma exec_item_keeps_P:
  assumes "P (world s)" and "mb_inflight s" and "rst_fd s < 0" and "harmless plain it s"
  shows "returns (exec_item W B it s) (\<lambda>r. \<exists>s'. r = Ran s' \<and> P (world s'))"
proof -
  let ?s = "enter_item it s"
  have e: "in_P ?s" "mb_inflight ?s" "rst_fd ?s < 0" "plain_item plain it ?s"
    using assms by (simp_all add: in_P_upd harmless_def plain_item_def body_len_def read_body_def)
      (simp_all add: in_P_def enter_item_def Let_def)
  have r: "returns (ran m) (\<lambda>r. \<exists>s'. r = Ran s' \<and> P (world s'))" if "returns m in_P" for m
    using that by (auto simp: returns_iff ran_def in_P_def)
  show ?thesis
    using assms(4) e unfolding exec_item_def Let_def harmless_def
    by (auto split: option.split spiproxy_type.split
        intro!: r in_P_read_write in_P_batch in_P_claim in_P_release in_P_stats in_P_trace in_P_reset in_P_send_resp)
qed

text \<open>
  Running the queues, when nothing queued is a mailbox request or could reset the device: the
  state of affairs while a transaction waits for its answer.
\<close>

lemma harmless_others:
  assumes "stable s s'" and "q_body (pool s' i) = q_body (pool s i)"
  shows "harmless plain i s' = harmless plain i s"
  using stable_tags [OF assms(1), of i] assms(2)
  by (simp add: harmless_def plain_item_def body_len_def read_body_def)

lemma harmless_turn:
  assumes ok: "sched_ok s F Q L" "daemon_ok s" and P: "P (world s)" "mb_inflight s" "rst_fd s < 0"
    and h: "\<forall>i \<in> set_mset (qset Q). harmless plain i s" and p: "pick_spec (item_eligible s) Q [0, 1, 2] = Some (q, it)"
  obtains s1 s2 where "dequeue s = Some (Some (it, s1))" and "exec_item W B it s1 = Some (Ran s2)"
    and "sched_ok (free_item it s2) (it # F) (Q(q := remove1 it (Q q))) L" and "daemon_ok (free_item it s2)"
    and "P (world (free_item it s2))" and "mb_inflight (free_item it s2)" and "rst_fd (free_item it s2) < 0"
    and "\<forall>i \<in> set_mset (qset (Q(q := remove1 it (Q q)))). harmless plain i (free_item it s2)"
proof -
  let ?Q = "Q(q := remove1 it (Q q))"
  have Q: "add_mset it (qset ?Q) = qset Q" using pick_spec_mem [OF p] by (intro qset_remove1) auto
  then have hit: "harmless plain it s" using h by (metis union_single_eq_member)
  then have ty: "type_of_code (h_type (q_hdr (pool s it))) \<noteq> Some SPIPROXY_MAILBOX" by (simp add: harmless_def)
  obtain s1 s2 where
    d: "dequeue s = Some (Some (it, s1))" and r: "relinked s s1" and "daemon_ok s1" and s1: "sched_ok s1 F ?Q (it # L)"
    and x: "exec_item W B it s1 = Some (Ran s2)" and a: "answers it s1 s2" and r3: "relinked s2 (free_item it s2)"
    and s3: "sched_ok (free_item it s2) (it # F) ?Q L" and st: "stable s (free_item it s2)"
    and bodies: "\<And>j. j \<noteq> it \<Longrightarrow> q_body (pool (free_item it s2) j) = q_body (pool s j)"
    by (rule plain_turn [OF ok p ty, of W]) (rule that)
  let ?s = "free_item it s2"
  have f1: "world s1 = world s" "rst_fd s1 = rst_fd s" "mb_inflight s1 = mb_inflight s"
    and f3: "world ?s = world s2" "mb_inflight ?s = mb_inflight s2"
    using relinked_world [OF r] relinked_world [OF r3] by simp_all
  have "harmless plain it s1"
    using harmless_others [of s s1 it] relinked_stable [OF r] relinked_body [OF r] hit by simp
  with exec_item_keeps_P [of s1 it W] x f1 P have "P (world ?s)" by (auto simp: returns_iff f3)
  moreover have "mb_inflight ?s" using a f1 f3 P by (auto simp: answers_def)
  moreover have "harmless plain i ?s" if i: "i \<in> set_mset (qset ?Q)" for i
  proof -
    have "i \<in> set_mset (qset Q)" using i Q by (metis union_iff add_mset_add_single)
    moreover have "i \<noteq> it" using i s1 by (auto simp: qset_def sched_ok_def dest!: links_chained chained_distinct)
    ultimately show ?thesis using harmless_others [OF st bodies] h by auto
  qed
  ultimately show thesis using that [OF d x s3] st ok(2) P(3) by (auto simp: stable_def conf_of_def)
qed

lemma drain_keeps_P:
  assumes "sched_ok s F Q L" and "daemon_ok s" and "P (world s)" and "mb_inflight s" and "rst_fd s < 0"
    and "\<forall>i \<in> set_mset (qset Q). harmless plain i s"
  shows "returns (drain_queues n B b s) (\<lambda>r. \<forall>s'. r = Ran s' \<longrightarrow> P (world s') \<and> mb_inflight s')"
  using assms
proof (induction n arbitrary: s F Q b)
  case 0
  then show ?case by (simp add: wp_simps)
next
  case (Suc n)
  show ?case
  proof (cases "b = 0 \<or> dequeue s = Some None")
    case True
    with Suc.prems show ?thesis by (auto simp: wp_simps)
  next
    case False
    with dequeue_holds [OF Suc.prems(1)] obtain q it where p: "pick_spec (item_eligible s) Q [0, 1, 2] = Some (q, it)"
      by (auto simp: holds_iff split: option.splits)
    obtain s1 s2 where d: "dequeue s = Some (Some (it, s1))" and x: "exec_item (mb_wait n B) B it s1 = Some (Ran s2)"
      and "returns (drain_queues n B (b - 1) (free_item it s2)) (\<lambda>r. \<forall>s'. r = Ran s' \<longrightarrow> P (world s') \<and> mb_inflight s')"
      by (rule harmless_turn [OF Suc.prems p, of "mb_wait n B"]) (blast intro: Suc.IH)
    then show ?thesis using False by (simp add: wp_simps)
  qed
qed

end

end
