(* ===== verification/Fuzz_Build.thy ===== *)
theory Fuzz_Build
  imports Isolation
begin

text \<open>
  The hardware-free build. Its register stub answers the mailbox flag deterministically: idle
  outside a transaction, busy inside one, done from the second poll on. Hence a transaction
  never starts inside another, every wait is over after two polls, and \<open>drain_queues\<close> returns
  with an explicit amount of fuel, whatever the feed, the clock and the queued requests are.
\<close>

text \<open>The kernel does not touch the stub's own variables.\<close>

definition fuzz_kernel :: "'k kernel \<Rightarrow> 'k fuzz_world kernel" where
  "fuzz_kernel K =
     \<lparr>k_clock = (\<lambda>w. let (t, k) = k_clock K (fz_kernel w) in (t, w\<lparr>fz_kernel := k\<rparr>)),
      k_usleep = (\<lambda>d w. w\<lparr>fz_kernel := k_usleep K d (fz_kernel w)\<rparr>),
      k_send = (\<lambda>fd m w. let (r, k) = k_send K fd m (fz_kernel w) in (r, w\<lparr>fz_kernel := k\<rparr>)),
      k_spi = (\<lambda>tx f w. let (r, k) = k_spi K tx f (fz_kernel w) in (r, w\<lparr>fz_kernel := k\<rparr>)),
      k_gpio = (\<lambda>fd b w. let (r, k) = k_gpio K fd b (fz_kernel w) in (r, w\<lparr>fz_kernel := k\<rparr>)),
      k_stack_pkt = (\<lambda>w. k_stack_pkt K (fz_kernel w)),
      k_stack_v = (\<lambda>w. k_stack_v K (fz_kernel w))\<rparr>"

abbreviation fz_build :: "'k kernel \<Rightarrow> lan80xx_regs \<Rightarrow> 'k fuzz_world build" where
  "fz_build K R \<equiv> fuzz_build (fuzz_kernel K) R"

definition flag_reads :: "'k fuzz_world daemon \<Rightarrow> u32" where
  "flag_reads s = g_fuzz_mb_reads (world s)"

interpretation fzg: guarded_world "fz_build K R" "\<lambda>w. g_fuzz_mb_reads w = a" "\<lambda>mmd. True"
  for K :: "'k kernel" and R and a
proof unfold_locales
  fix s :: "'k fuzz_world daemon" and mmd reg sl v
  assume a: "g_fuzz_mb_reads (world s) = a"
    and g: "\<not> (mmd = MMD_GLOBAL \<and> MB_GUARD_LO \<le> reg \<and> reg \<le> MB_GUARD_HI)"
  show "g_fuzz_mb_reads (world (snd (b_write_reg (fz_build K R) sl mmd reg v s))) = a"
    using a by (simp add: fuzz_write_reg_def)
  have "\<not> (mmd = MMD_GLOBAL \<and> reg = MB_FLAG)" using g by (auto simp: const_defs)
  then show "g_fuzz_mb_reads (world (snd (b_read_reg (fz_build K R) sl mmd reg s))) = a"
    using a by (auto simp: fuzz_read_reg_def fuzz_spi_next_def Let_def split: prod.splits)
qed (simp_all add: fuzz_kernel_def fuzz_pulse_reset_def split: prod.splits)

section \<open>Register accesses of the mailbox\<close>

lemma flag_reads_log [simp]: "flag_reads (log_trace (fuzz_kernel K) t s) = flag_reads s"
  by (simp add: flag_reads_def log_trace_def trace_v_def now_us_def fuzz_kernel_def split: prod.splits)

lemma flag_reads_upd [simp]:
  "flag_reads (s\<lparr>mb_inflight := b\<rparr>) = flag_reads s" "flag_reads (s\<lparr>n_reads := n\<rparr>) = flag_reads s"
  "flag_reads (s\<lparr>n_writes := n\<rparr>) = flag_reads s" "flag_reads (s\<lparr>n_io_err := n\<rparr>) = flag_reads s"
  "flag_reads (s\<lparr>pool := p\<rparr>) = flag_reads s"
  by (simp_all add: flag_reads_def)

lemma flag_reads_now_us: "now_us (fuzz_kernel K) s = (t, s') \<Longrightarrow> flag_reads s' = flag_reads s"
  by (auto simp: flag_reads_def now_us_def fuzz_kernel_def split: prod.splits)

lemma flag_reads_mb_wr: "mb_wr (fz_build K R) sl r v s = (ok, s') \<Longrightarrow> ok \<and> flag_reads s' = flag_reads s"
  by (auto simp: mb_wr_def fuzz_write_reg_def Let_def split: if_splits)

lemma flag_reads_mb_rd:
  "mb_rd (fz_build K R) sl r v s = (x, s') \<Longrightarrow> r \<noteq> MB_FLAG \<Longrightarrow> flag_reads s' = flag_reads s"
  by (auto simp: mb_rd_def fuzz_read_reg_def fuzz_spi_next_def Let_def flag_reads_log split: if_splits prod.splits)
    (simp_all add: flag_reads_def)

lemma mb_rd_flag_busy:
  assumes "mb_inflight s"
  shows "\<exists>s'. mb_rd (fz_build K R) sl MB_FLAG v s =
      (Some (MB_F_BUSY OR (if 2 \<le> flag_reads s + 1 then MB_F_RESP else 0)), s') \<and>
    flag_reads s' = flag_reads s + 1"
  using assms
  by (auto simp: mb_rd_def fuzz_read_reg_def Let_def) (simp_all add: flag_reads_def)

lemma mb_rd_flag_idle:
  assumes "\<not> mb_inflight s"
  shows "\<exists>s'. mb_rd (fz_build K R) sl MB_FLAG v s = (Some 0, s') \<and> flag_reads s' = 0"
  using assms
  by (auto simp: mb_rd_def fuzz_read_reg_def Let_def) (simp_all add: flag_reads_def)

lemma busy_bit: "(MB_F_BUSY OR x) AND MB_F_BUSY \<noteq> 0"
proof -
  have "(MB_F_BUSY OR x) AND MB_F_BUSY = MB_F_BUSY" by (simp add: and.commute)
  then show ?thesis by (simp add: const_defs)
qed

lemma resp_bit: "(MB_F_BUSY OR (if c then MB_F_RESP else 0)) AND MB_F_RESP \<noteq> 0 \<longleftrightarrow> c"
  by (simp add: const_defs)

section \<open>Inside a transaction\<close>

lemma request_busy:
  assumes "mb_inflight s"
  shows "\<exists>st pkt' v' s'. mb_request (fz_build K R) mb payload pkt v s = Some (Some st, pkt', v', s') \<and>
    mb_inflight s' \<and> (flag_reads s' = flag_reads s \<or> flag_reads s' = flag_reads s + 1)"
proof (cases "SPIPROXY_MB_MAX < unat (mb_payload_len mb) \<or> SLICE_COUNT \<le> unat (mb_slice mb)")
  case True
  then show ?thesis using assms by (auto simp: mb_request_def)
next
  case False
  then obtain pkt1 where p: "mb_build mb payload pkt = Some pkt1"
    by (auto simp: mb_build_def Let_def const_defs)
  obtain s' where r: "mb_rd (fz_build K R) (mb_slice mb) MB_FLAG v s =
      (Some (MB_F_BUSY OR (if 2 \<le> flag_reads s + 1 then MB_F_RESP else 0)), s')"
    and k: "flag_reads s' = flag_reads s + 1"
    using mb_rd_flag_busy [OF assms] by blast
  have "mb_inflight s'" using fz.mb_rd_frame [OF r] assms by simp
  then show ?thesis using False p r k busy_bit by (simp add: mb_request_def Let_def)
qed

lemma send_resp_polled:
  assumes "length body \<le> SPIPROXY_MSG_MAX"
  shows "\<exists>s'. send_resp (fz_build K R) c h st body s = Some s' \<and> mb_inflight s' = mb_inflight s \<and>
    flag_reads s' = flag_reads s"
proof -
  have "returns (send_resp (fz_build K R) c h st body s) (\<lambda>s'. flag_reads s' = flag_reads s)"
    unfolding flag_reads_def by (rule fzg.send_resp_keeps_P) simp
  with send_resp_holds [OF assms, of "fz_build K R" c h st s] show ?thesis
    by (auto simp: holds_iff returns_iff)
qed

lemma mb_item_busy:
  assumes "mb_inflight s" and "body_len it s \<le> SPIPROXY_MSG_MAX"
  shows "\<exists>s'. exec_mb_item W (fz_build K R) it s = Some (Ran s') \<and> mb_inflight s' \<and>
    (flag_reads s' = flag_reads s \<or> flag_reads s' = flag_reads s + 1)"
proof (cases "body_len it s = sizeof_mb + unat (mb_payload_len (dec_mb (read_body it 0 sizeof_mb s)))")
  case False
  then show ?thesis
    using assms send_resp_polled [of "[]" K R "q_c (pool s it)" "q_hdr (pool s it)" SPIPROXY_EINVAL s]
    by (auto simp: exec_mb_item_def Let_def ran_def)
next
  case True
  let ?mb = "dec_mb (read_body it 0 sizeof_mb s)"
  let ?n = "unat (mb_payload_len ?mb)"
  obtain st pkt' v' s1 where q: "mb_request (fz_build K R) ?mb (read_body it sizeof_mb ?n s)
      (k_stack_pkt (fuzz_kernel K) (world s)) (k_stack_v (fuzz_kernel K) (world s)) s = Some (Some st, pkt', v', s1)"
    and s1: "mb_inflight s1" "flag_reads s1 = flag_reads s \<or> flag_reads s1 = flag_reads s + 1"
    using request_busy [OF assms(1)] by blast
  have x: "exec_mailbox W (fz_build K R) ?mb (read_body it sizeof_mb ?n s) s = Some (Ran (st, mb_cmd ?mb, [], s1))"
    using q by (simp add: exec_mailbox_def Let_def)
  let ?mb' = "?mb\<lparr>mb_cmd := mb_cmd ?mb, mb_payload_len := of_nat (length ([] :: u8 list))\<rparr>"
  let ?s2 = "write_body it 0 (enc_mb ?mb') s1"
  have "length (enc_mb ?mb' @ (if st = SPIPROXY_OK then [] else [])) \<le> SPIPROXY_MSG_MAX"
    by (simp add: mbf.length_enc const_defs)
  from send_resp_polled [OF this, of K R "q_c (pool s it)" "q_hdr (pool s it)" st ?s2]
  obtain s3 where "send_resp (fz_build K R) (q_c (pool s it)) (q_hdr (pool s it)) st
      (enc_mb ?mb' @ (if st = SPIPROXY_OK then [] else [])) ?s2 = Some s3"
    "mb_inflight s3" "flag_reads s3 = flag_reads s1"
    using s1(1) by (auto simp: write_body_def)
  moreover have "sizeof_mb + ?n \<le> SPIPROXY_MSG_MAX" using True assms(2) by simp
  ultimately show ?thesis
    using True x s1(2) by (simp add: exec_mb_item_def Let_def ran_def)
qed

lemma item_busy:
  assumes "sched_ok s F Q L" and "daemon_ok s" and "mb_inflight s" and "rst_fd s < 0"
  shows "\<exists>s'. exec_item W (fz_build K R) it s = Some (Ran s') \<and> mb_inflight s' \<and>
    (flag_reads s' = flag_reads s \<or> flag_reads s' = flag_reads s + 1)"
proof (cases "type_of_code (h_type (q_hdr (pool s it))) = Some SPIPROXY_MAILBOX")
  case True
  have e: "flag_reads (enter_item it s) = flag_reads s"
    by (simp add: flag_reads_def enter_item_def Let_def)
  have "body_len it (enter_item it s) \<le> SPIPROXY_MSG_MAX"
    using assms(2) by (simp add: daemon_ok_def body_len_def)
  then show ?thesis
    using mb_item_busy [of "enter_item it s" it W K R] assms(3) e
    by (simp add: fz.exec_item_mailbox [OF True])
next
  case False
  show ?thesis
    using fz.exec_item_answers [OF assms(1,2) False, of W "fuzz_kernel K" R]
      fzg.exec_item_keeps_P [OF refl assms(3,4), of it W K R] False assms(3,4)
    by (auto simp: holds_iff returns_iff answers_def flag_reads_def harmless_def plain_item_def)
qed

lemma stable_rst_fd: "stable s s' \<Longrightarrow> rst_fd s' = rst_fd s"
  by (simp add: stable_def conf_of_def)

lemma flag_reads_step:
  "flag_reads s' = flag_reads s \<or> flag_reads s' = flag_reads s + 1 \<Longrightarrow> unat (flag_reads s) + 1 < 2 ^ 32 \<Longrightarrow>
   unat (flag_reads s) \<le> unat (flag_reads s') \<and> unat (flag_reads s') \<le> unat (flag_reads s) + 1"
  by (auto simp: unat_word_ariths)

lemma drain_busy:
  assumes "sched_ok s F Q L" and "daemon_ok s" and "mb_inflight s" and "rst_fd s < 0"
    and "b < n" and "unat (flag_reads s) + b < 2 ^ 32"
  shows "\<exists>s'. drain_queues n (fz_build K R) b s = Some (Ran s') \<and> mb_inflight s' \<and>
    unat (flag_reads s) \<le> unat (flag_reads s') \<and> unat (flag_reads s') \<le> unat (flag_reads s) + b"
  using assms
proof (induction n arbitrary: s F Q b)
  case (Suc m)
  show ?case
  proof (cases "b = 0 \<or> dequeue s = Some None")
    case True
    then show ?thesis using Suc.prems(3) by auto
  next
    case False
    with dequeue_holds [OF Suc.prems(1)] obtain it s1 q where d: "dequeue s = Some (Some (it, s1))"
      and s1: "sched_ok s1 F (Q(q := remove1 it (Q q))) (it # L)" and r: "relinked s s1"
      by (auto simp: holds_iff split: option.splits)
    have f1: "daemon_ok s1" "mb_inflight s1" "rst_fd s1 < 0" "flag_reads s1 = flag_reads s"
      using relinked_stable [OF r] relinked_world [OF r] Suc.prems by (auto simp: stable_def flag_reads_def)
    obtain s2 where e: "exec_item (mb_wait m (fz_build K R)) (fz_build K R) it s1 = Some (Ran s2)"
      and s2: "mb_inflight s2" "flag_reads s2 = flag_reads s \<or> flag_reads s2 = flag_reads s + 1"
      using item_busy [OF s1 f1(1,2,3)] f1(4) by metis
    have sv: "serves (it # L) [it] s1 s2"
      using fz.exec_item_serves [OF fz.mb_wait_ok [of m "fuzz_kernel K" R] s1 f1(1),
          where it = it and K = "fuzz_kernel K" and R = R] e
      by (simp add: wp_simps)
    have f: "serves L [] s (free_item it s2)" using Suc.prems(1) d sv by (rule drain_step_serves)
    obtain F' Q' where s3: "sched_ok (free_item it s2) F' Q' L" using serves_sched [OF f Suc.prems(1)] by blast
    have w3: "flag_reads (free_item it s2) = flag_reads s2" "mb_inflight (free_item it s2)"
      using relinked_world [OF free_item_relinked [of s2 it]] s2(1) by (auto simp: flag_reads_def)
    have k: "unat (flag_reads s) \<le> unat (flag_reads s2)" "unat (flag_reads s2) \<le> unat (flag_reads s) + 1"
      using flag_reads_step [OF s2(2)] Suc.prems(6) False by auto
    have "\<exists>s'. drain_queues m (fz_build K R) (b - 1) (free_item it s2) = Some (Ran s') \<and> mb_inflight s' \<and>
        unat (flag_reads s2) \<le> unat (flag_reads s') \<and> unat (flag_reads s') \<le> unat (flag_reads s2) + (b - 1)"
      unfolding w3(1) [symmetric]
      using Suc.prems False w3 k stable_rst_fd [of s "free_item it s2"] f
      by (intro Suc.IH [OF s3]) (auto simp: serves_def stable_def)
    then show ?thesis using False d e k by (auto intro: order_trans)
  qed
qed simp

lemma wait_returns:
  assumes ok: "sched_ok s F Q L" "daemon_ok s" and "mb_inflight s" and "rst_fd s < 0"
    and k: "unat (flag_reads s) < 100" and n: "6 \<le> n"
  shows "\<exists>r. mb_wait n (fz_build K R) sl t_end v s = Some (Ran r)"
proof -
  obtain m where m: "n = Suc (Suc m)" "4 < Suc m" using n by (cases n; cases "n - 1") auto
  obtain s1 where r1: "mb_rd (fz_build K R) sl MB_FLAG v s =
      (Some (MB_F_BUSY OR (if 2 \<le> flag_reads s + 1 then MB_F_RESP else 0)), s1)"
    and k1: "flag_reads s1 = flag_reads s + 1"
    using mb_rd_flag_busy [OF assms(3)] by blast
  obtain t s2 where t: "now_us (fuzz_kernel K) s1 = (t, s2)" by fastforce
  have f: "mbx_frame s s2" "mb_inflight s2"
    using fz.mb_rd_frame [OF r1] io_frame_now_us [OF t] assms(3)
    by (auto simp: io_frame_iff intro: mbx_frame_trans io_mbx_frame [OF io_frame_now_us [OF t]])
  have k2: "unat (flag_reads s2) = unat (flag_reads s) + 1"
    using flag_reads_now_us [OF t] k1 k by (simp add: unat_word_ariths)
  note sv = mbx_serves [OF f(1), of L]
  obtain F' Q' where q: "sched_ok s2 F' Q' L" using serves_sched [OF sv ok(1)] by blast
  have "rst_fd s2 < 0" using sv assms(4) stable_rst_fd by (metis serves_def)
  then obtain s3 where d: "drain_queues (Suc m) (fz_build K R) 4 s2 = Some (Ran s3)" and i3: "mb_inflight s3"
    and k3: "unat (flag_reads s2) \<le> unat (flag_reads s3)" "unat (flag_reads s3) \<le> unat (flag_reads s2) + 4"
    using drain_busy [OF q serves_daemon_ok [OF sv ok(2)] f(2), of 4 "Suc m" K R] m(2) k k2 by auto
  let ?s4 = "s3\<lparr>world := k_usleep (fuzz_kernel K) 0 (world s3)\<rparr>"
  have "flag_reads ?s4 = flag_reads s3" by (simp add: flag_reads_def fuzz_kernel_def)
  then have "2 \<le> flag_reads ?s4 + 1" using k k2 k3 by (simp add: word_le_nat_alt unat_word_ariths)
  note two = this
  have rb: "(MB_F_BUSY OR MB_F_RESP) AND MB_F_RESP \<noteq> 0" using resp_bit [of True] by simp
  have "\<exists>r. mb_wait (Suc m) (fz_build K R) sl t_end x ?s4 = Some (Ran r)" for x
  proof -
    obtain s5 where "mb_rd (fz_build K R) sl MB_FLAG x ?s4 = (Some (MB_F_BUSY OR MB_F_RESP), s5)"
      using mb_rd_flag_busy [of ?s4 K R sl x] i3 two by auto
    then show ?thesis using rb by simp
  qed
  then show ?thesis
    using d by (auto simp: m(1) r1 t Let_def split: prod.split)
qed

section \<open>Outside a transaction\<close>

lemma flag_reads_mb_put:
  "mb_put (fz_build K R) sl pkt ks v s = Some (ok, v', s') \<Longrightarrow> flag_reads s' = flag_reads s"
proof (induction ks arbitrary: v s)
  case (Cons k ks)
  obtain o1 s1 where w: "mb_wr (fz_build K R) sl (of_nat (MB_CMD_ADDR + k)) (word_at pkt (4 * k)) s = (o1, s1)"
    by fastforce
  with Cons flag_reads_mb_wr [OF w] show ?case
    by (auto simp: Let_def guard_def split: if_splits)
qed simp

lemma flag_reads_mb_ring:
  "mb_ring (fz_build K R) sl v s = (st, v', s') \<Longrightarrow> flag_reads s' = flag_reads s"
proof -
  have "MB_MCU_MASK \<noteq> MB_FLAG" by (simp add: const_defs)
  then show "mb_ring (fz_build K R) sl v s = (st, v', s') \<Longrightarrow> flag_reads s' = flag_reads s"
    by (auto simp: mb_ring_def Let_def split: prod.splits option.splits if_splits
        dest!: flag_reads_mb_rd flag_reads_mb_wr)
qed

lemma request_idle:
  assumes "mb_request (fz_build K R) mb payload pkt v s = Some (None, pkt', v', s')" and "\<not> mb_inflight s"
  shows "flag_reads s' = 0"
proof -
  obtain s1 where r: "mb_rd (fz_build K R) (mb_slice mb) MB_FLAG v s = (Some 0, s1)" and k: "flag_reads s1 = 0"
    using mb_rd_flag_idle [OF assms(2)] by blast
  obtain pkt1 where "mb_build mb payload pkt = Some pkt1"
    using assms(1) by (cases "mb_build mb payload pkt") (auto simp: mb_request_def Let_def split: if_splits)
  with assms(1) r obtain v1 s2 ks where
    put: "mb_put (fz_build K R) (mb_slice mb) pkt1 ks 0 (s1\<lparr>mb_inflight := True\<rparr>) = Some (True, v1, s2)"
    and ring: "mb_ring (fz_build K R) (mb_slice mb) v1 s2 = (None, v', s')"
    by (auto simp: mb_request_def Let_def bind_eq_Some_conv split: if_splits prod.splits)
  from flag_reads_mb_put [OF put] flag_reads_mb_ring [OF ring] k show ?thesis by simp
qed

lemma mailbox_returns:
  assumes "sched_ok s F Q L" and "daemon_ok s" and "\<not> mb_inflight s" and "rst_fd s < 0" and "6 \<le> n"
  shows "exec_mailbox (mb_wait n (fz_build K R)) (fz_build K R) mb payload s \<noteq> Some Starved"
proof
  assume x: "exec_mailbox (mb_wait n (fz_build K R)) (fz_build K R) mb payload s = Some Starved"
  then obtain pkt' v' s1 pkt v where
    q: "mb_request (fz_build K R) mb payload pkt v s = Some (None, pkt', v', s1)"
    and w: "mb_await (mb_wait n (fz_build K R)) (fz_build K R) mb pkt' v'
        (if mb_timeout_ms mb \<noteq> 0 then mb_timeout_ms mb else MB_TIMEOUT_MS) s1 = Some Starved"
    by (auto simp: exec_mailbox_def Let_def bind_eq_Some_conv split: option.splits)
  obtain t s2 where t: "now_us (fuzz_kernel K) s1 = (t, s2)" by fastforce
  have f1: "mbx_frame s s1" "mb_inflight s1"
    using fz.mb_request_holds [of "fuzz_kernel K" R mb payload pkt v s] q by (auto simp: wp_simps)
  have f: "mbx_frame s s2" using f1(1) io_mbx_frame [OF io_frame_now_us [OF t]] by (rule mbx_frame_trans)
  have i2: "mb_inflight s2" using f1(2) io_frameD [OF io_frame_now_us [OF t]] by simp
  have k: "unat (flag_reads s2) < 100"
    using flag_reads_now_us [OF t] request_idle [OF q assms(3)] by simp
  note sv = mbx_serves [OF f, of L]
  obtain F' Q' where sch: "sched_ok s2 F' Q' L" using serves_sched [OF sv assms(1)] by blast
  have "rst_fd s2 < 0" using sv assms(4) stable_rst_fd by (metis serves_def)
  from wait_returns [OF sch serves_daemon_ok [OF sv assms(2)] i2 this k assms(5)]
  have "\<exists>r. mb_wait n (fz_build K R) sl te v s2 = Some (Ran r)" for sl te v .
  then obtain r where "mb_wait n (fz_build K R) (mb_slice mb)
      (t + ucast (if mb_timeout_ms mb \<noteq> 0 then mb_timeout_ms mb else MB_TIMEOUT_MS) * 1000) v' s2 = Some (Ran r)"
    by blast
  with w t show False
    by (cases r) (auto simp: mb_await_def Let_def bind_eq_Some_conv split: option.splits)
qed

lemma item_returns:
  assumes "sched_ok s F Q L" and "daemon_ok s" and "\<not> mb_inflight s" and "rst_fd s < 0" and "6 \<le> n"
  shows "exec_item (mb_wait n (fz_build K R)) (fz_build K R) it s \<noteq> Some Starved"
proof (cases "type_of_code (h_type (q_hdr (pool s it))) = Some SPIPROXY_MAILBOX")
  case True
  let ?s = "enter_item it s"
  obtain F' Q' where q: "sched_ok ?s F' Q' L" using serves_sched [OF enter_serves assms(1)] by blast
  have "rst_fd ?s < 0" using assms(4) by (simp add: enter_item_def Let_def)
  with mailbox_returns [OF q serves_daemon_ok [OF enter_serves assms(2)]] assms show ?thesis
    unfolding fz.exec_item_mailbox [OF True]
    by (auto simp: exec_mb_item_def Let_def ran_def bind_eq_Some_conv split: if_splits fueled.splits)
next
  case False
  show ?thesis
    using fz.exec_item_answers [OF assms(1,2) False, of "mb_wait n (fz_build K R)" "fuzz_kernel K" R]
    by (auto simp: holds_iff)
qed

lemma drain_returns:
  assumes "sched_ok s F Q L" and "daemon_ok s" and "\<not> mb_inflight s" and "rst_fd s < 0" and "b + 7 \<le> n"
  shows "\<exists>s'. drain_queues n (fz_build K R) b s = Some (Ran s') \<and> serves L [] s s' \<and> \<not> mb_inflight s'"
proof -
  have "drain_queues n (fz_build K R) b s \<noteq> Some Starved"
    using assms
  proof (induction n arbitrary: s F Q b)
    case (Suc m)
    show ?case
    proof (cases "b = 0 \<or> dequeue s = Some None")
      case True
      then show ?thesis by auto
    next
      case False
      with dequeue_holds [OF Suc.prems(1)] obtain it s1 q where d: "dequeue s = Some (Some (it, s1))"
        and s1: "sched_ok s1 F (Q(q := remove1 it (Q q))) (it # L)" and r: "relinked s s1"
        by (auto simp: holds_iff split: option.splits)
      have f1: "daemon_ok s1" "\<not> mb_inflight s1" "rst_fd s1 < 0"
        using relinked_stable [OF r] relinked_world [OF r] Suc.prems by (auto simp: stable_def)
      let ?e = "exec_item (mb_wait m (fz_build K R)) (fz_build K R) it s1"
      have e: "ends ?e (\<lambda>s'. serves (it # L) [it] s1 s' \<and> (mb_inflight s' \<longrightarrow> mb_inflight s1))"
        by (rule fz.exec_item_serves [OF fz.mb_wait_ok s1 f1(1)])
      have "?e \<noteq> Some Starved" using item_returns [OF s1 f1] Suc.prems(5) False by simp
      with e obtain s2 where s2: "?e = Some (Ran s2)" "serves (it # L) [it] s1 s2" "\<not> mb_inflight s2"
        using f1(2) by (auto elim!: ends_ran)
      have f: "serves L [] s (free_item it s2)" using Suc.prems(1) d s2(2) by (rule drain_step_serves)
      obtain F' Q' where s3: "sched_ok (free_item it s2) F' Q' L" using serves_sched [OF f Suc.prems(1)] by blast
      have "drain_queues m (fz_build K R) (b - 1) (free_item it s2) \<noteq> Some Starved"
        using Suc.prems False s2(3) f relinked_world [OF free_item_relinked [of s2 it]]
          stable_rst_fd [of s "free_item it s2"]
        by (intro Suc.IH [OF s3]) (auto simp: serves_def stable_def)
      with s2(1) d show ?thesis by simp
    qed
  qed simp
  then show ?thesis
    using fz.drain_serves [OF assms(1,2), of n "fuzz_kernel K" R b] assms(3)
    by (auto elim!: ends_ran)
qed

end
