(* ===== verification/Server.thy ===== *)
theory Server
  imports Fuzz_Build
begin

text \<open>
  Clients and the main loop: \<^verbatim>\<open>client_drop\<close>, \<^verbatim>\<open>client_frame\<close>, \<^verbatim>\<open>client_msg\<close>,
  \<^verbatim>\<open>accept_client\<close>, and one turn of the loop in \<^verbatim>\<open>main\<close>. The socket calls are the record
  \<open>'w sockets\<close>; an epoll event is the listening socket or a client slot.
\<close>

datatype event = Listening | Client nat

record 'w sockets =
  so_accept :: "'w \<Rightarrow> int \<times> 'w"
  so_peer_pid :: "int \<Rightarrow> 'w \<Rightarrow> u32 \<times> 'w"
  so_proc_comm :: "int \<Rightarrow> 'w \<Rightarrow> string option \<times> 'w"
  so_recv :: "int \<Rightarrow> 'w \<Rightarrow> u8 list option \<times> 'w"
  so_close :: "int \<Rightarrow> 'w \<Rightarrow> 'w"
  so_epoll_add :: "int \<Rightarrow> 'w \<Rightarrow> 'w"
  so_epoll_del :: "int \<Rightarrow> 'w \<Rightarrow> 'w"
  so_epoll_wait :: "int \<Rightarrow> 'w \<Rightarrow> event list \<times> 'w"

section \<open>Clients\<close>

definition purge_all :: "nat \<Rightarrow> 'w daemon \<Rightarrow> 'w daemon option" where
  "purge_all c s = do { s \<leftarrow> purge_queue c 0 s; s \<leftarrow> purge_queue c 1 s; purge_queue c 2 s }"

definition close_client :: "'w sockets \<Rightarrow> 'w build \<Rightarrow> nat \<Rightarrow> 'w daemon \<Rightarrow> 'w daemon" where
  "close_client S B c s =
     (let s = s\<lparr>world := so_close S (c_fd (cl s c)) (so_epoll_del S (c_fd (cl s c)) (world s))\<rparr>;
          s = s\<lparr>cl := (cl s)(c := (cl s c)\<lparr>c_used := False\<rparr>)\<rparr>
      in log_debug (b_kernel B) (''C'' @ pu (c_id (cl s c)) @ ''('' @ c_comm (cl s c) @ '') EVT disconnect'') s)"

definition client_drop :: "'w sockets \<Rightarrow> 'w build \<Rightarrow> nat \<Rightarrow> 'w daemon \<Rightarrow> 'w daemon option" where
  "client_drop S B c s =
     do {
       s \<leftarrow> (if claim_owner s = Some c then claim_end B True s else Some s);
       s \<leftarrow> purge_all c s;
       Some (close_client S B c s)
     }"

definition bad_hdr :: spiproxy_hdr where
  "bad_hdr = \<lparr>h_ver = 0, h_type = 0, h_flags = 0, h_seq = 0, h_len = 0\<rparr>"

definition frame_ok :: "u8 list \<Rightarrow> bool" where
  "frame_ok msg \<longleftrightarrow>
     (let n = length msg; h = dec_hdr (take sizeof_hdr msg)
      in \<not> (n < sizeof_hdr \<or> h_ver h \<noteq> SPIPROXY_VER \<or>
            unat (h_len h) \<noteq> unat (of_nat n :: u32) - sizeof_hdr \<or> SPIPROXY_MSG_MAX < unat (h_len h)))"

definition client_frame :: "'w build \<Rightarrow> nat \<Rightarrow> u8 list \<Rightarrow> 'w daemon \<Rightarrow> 'w daemon option" where
  "client_frame B c msg s =
     (let h = dec_hdr (take sizeof_hdr msg)
      in if \<not> frame_ok msg then
           send_resp B c (if sizeof_hdr \<le> length msg then h else bad_hdr) SPIPROXY_EINVAL [] s
         else
           enqueue B c h (drop sizeof_hdr msg)
             (s\<lparr>cl := (cl s)(c := (cl s c)\<lparr>c_n_msgs := c_n_msgs (cl s c) + 1\<rparr>)\<rparr>))"

definition client_msg :: "'w sockets \<Rightarrow> 'w build \<Rightarrow> nat \<Rightarrow> 'w daemon \<Rightarrow> 'w daemon option" where
  "client_msg S B c s =
     (let (r, w) = so_recv S (c_fd (cl s c)) (world s);
          s = s\<lparr>world := w\<rparr>;
          msg = (case r of None \<Rightarrow> [] | Some d \<Rightarrow> take (sizeof_hdr + SPIPROXY_MSG_MAX) d)
      in if msg = [] then client_drop S B c s else client_frame B c msg s)"

text \<open>
  \<^verbatim>\<open>fgets\<close> into the 20-byte \<^verbatim>\<open>comm\<close>, cut at the newline; a C string ends at its first NUL.
\<close>

definition comm_of :: "string option \<Rightarrow> string" where
  "comm_of r =
     (let t = (case r of None \<Rightarrow> ''''
               | Some f \<Rightarrow> takeWhile (\<lambda>c. c \<noteq> CHR 0x0A \<and> c \<noteq> CHR 0x00) (take (COMM_PATH_MAX - 1) f))
      in if t = '''' then ''?'' else t)"

definition accept_client :: "'w sockets \<Rightarrow> 'w build \<Rightarrow> 'w daemon \<Rightarrow> 'w daemon" where
  "accept_client S B s =
     (let (fd, w) = so_accept S (world s); s = s\<lparr>world := w\<rparr>
      in if fd < 0 then s
         else
           case find (\<lambda>i. \<not> c_used (cl s i)) [0..<MAX_CLIENTS] of
             None \<Rightarrow> s\<lparr>world := so_close S fd (world s)\<rparr>
           | Some i \<Rightarrow>
               (let (p, w) = so_peer_pid S fd (world s); pid = sint p;
                    (f, w) = so_proc_comm S pid w;
                    s = s\<lparr>world := w, next_cid := next_cid s + 1,
                          cl := (cl s)(i := \<lparr>c_fd = fd, c_used = True, c_id = next_cid s + 1, c_pid = pid,
                            c_comm = comm_of f, c_n_ops = 0, c_n_msgs = 0, c_n_err = 0\<rparr>)\<rparr>;
                    s = s\<lparr>world := so_epoll_add S fd (world s)\<rparr>;
                    s = log_always (b_kernel B)
                      (''client '' @ pu (c_id (cl s i)) @ '' connected (pid '' @ show_int pid @ '')'') s
                in log_debug (b_kernel B)
                     (''C'' @ pu (c_id (cl s i)) @ ''('' @ c_comm (cl s i) @ '') EVT connect pid='' @ show_int pid) s))"

section \<open>Start-up\<close>

text \<open>
  Static storage is zero when \<^verbatim>\<open>main\<close> starts (\<open>zero_daemon\<close>); before the loop it chains the
  pool into the free list (\<open>chain_pool\<close>). \<open>init_daemon\<close> is the state with given settings after
  that.
\<close>

definition zero_client :: client where
  "zero_client = \<lparr>c_fd = 0, c_used = False, c_id = 0, c_pid = 0, c_comm = '''',
     c_n_ops = 0, c_n_msgs = 0, c_n_err = 0\<rparr>"

definition zero_op :: spiproxy_op where
  "zero_op = \<lparr>o_slice = 0, o_write = 0, o_mmd = 0, o_rsvd = 0, o_reg = 0, o_rsvd2 = 0, o_val = 0\<rparr>"

definition zero_daemon :: "'w \<Rightarrow> 'w daemon" where
  "zero_daemon w =
     \<lparr>dev = '''', sock = '''', pad = 0, freq = 0, rst_line = None, rst_fd = 0,
      cl = (\<lambda>i. zero_client), next_cid = 0, qh = (\<lambda>q. None), qt = (\<lambda>q. None),
      pool = (\<lambda>i. \<lparr>q_next = None, q_c = 0, q_hdr = bad_hdr, q_body = (\<lambda>k. 0)\<rparr>),
      freel = None, n_queued = 0,
      claim_owner = None, claim_deadline = 0, claim_cleanup = (\<lambda>i. zero_op), claim_ncleanup = 0,
      mb_inflight = False,
      ring = (\<lambda>i. \<lparr>te_ts = 0, te_cid = 0, te_slice = 0, te_write = 0, te_mmd = 0, te_reg = 0, te_val = 0\<rparr>),
      ring_w = 0, n_reads = 0, n_writes = 0, n_io_err = 0, log_sink = False,
      lctx_cid = 0, lctx_comm = '''', lctx_seq = 0, lctx_tag = '''',
      page_owner = (\<lambda>i j. \<lparr>pg_cid = 0, pg_comm = ''''\<rparr>),
      cor_last = (\<lambda>i. \<lparr>co_cid = 0, co_comm = '''', co_ts = 0\<rparr>),
      rd_ring = (\<lambda>i. \<lparr>rd_slice = 0, rd_mmd = 0, rd_reg = 0, rd_cid = 0, rd_comm = '''', rd_ts = 0\<rparr>),
      rd_w = 0, n_warns = 0, stop = False, trace_out = [], syslog = [], sent = [], world = w\<rparr>"

definition chain_pool :: "'w daemon \<Rightarrow> 'w daemon" where
  "chain_pool s =
     s\<lparr>pool := (\<lambda>i. if i < MAX_QITEMS - 1 then (pool s i)\<lparr>q_next := Some (i + 1)\<rparr> else pool s i),
       freel := Some 0\<rparr>"

definition init_daemon ::
    "string \<Rightarrow> string \<Rightarrow> nat \<Rightarrow> int \<Rightarrow> string option \<Rightarrow> int \<Rightarrow> bool \<Rightarrow> 'w \<Rightarrow> 'w daemon" where
  "init_daemon d sk pd fr rl rf sink w =
     chain_pool ((zero_daemon w)\<lparr>dev := d, sock := sk, pad := pd, freq := fr, rst_line := rl, rst_fd := rf,
       log_sink := sink\<rparr>)"

section \<open>The main loop\<close>

definition loop_timeout :: "'w daemon \<Rightarrow> int" where
  "loop_timeout s = (if n_queued s \<noteq> 0 then 0 else if claim_owner s \<noteq> None then 100 else - 1)"

fun handle_events :: "'w sockets \<Rightarrow> 'w build \<Rightarrow> event list \<Rightarrow> 'w daemon \<Rightarrow> 'w daemon option" where
  "handle_events S B [] s = Some s"
| "handle_events S B (Listening # evs) s = handle_events S B evs (accept_client S B s)"
| "handle_events S B (Client c # evs) s = do { s \<leftarrow> client_msg S B c s; handle_events S B evs s }"

definition expire_claim :: "'w build \<Rightarrow> 'w daemon \<Rightarrow> 'w daemon option" where
  "expire_claim B s =
     (case claim_owner s of
        None \<Rightarrow> Some s
      | Some c \<Rightarrow>
          (let (t, s) = now_us (b_kernel B) s
           in if claim_deadline s < t then
                (let s = log_warn (b_kernel B) (''claim by client '' @ pu (c_id (cl s c)) @ '' expired'') s;
                     s = log_debug (b_kernel B) (''C'' @ pu (c_id (cl s c)) @ '' CLAIM expired'') s
                 in claim_end B True s)
              else Some s))"

definition loop_body :: "nat \<Rightarrow> 'w sockets \<Rightarrow> 'w build \<Rightarrow> event list \<Rightarrow> 'w daemon \<Rightarrow> 'w daemon fueled option" where
  "loop_body n S B evs s =
     do {
       s \<leftarrow> handle_events S B evs s;
       s \<leftarrow> expire_claim B s;
       drain_queues n B 64 s
     }"

text \<open>
  One turn of the loop, or the delivery of SIGINT or SIGTERM. Epoll reports at most eight
  events, each descriptor once, and only descriptors that are registered: those of the clients
  in use.
\<close>

definition events_ok :: "'w daemon \<Rightarrow> event list \<Rightarrow> bool" where
  "events_ok s evs \<longleftrightarrow> distinct evs \<and> length evs \<le> 8 \<and>
     (\<forall>c. Client c \<in> set evs \<longrightarrow> c < MAX_CLIENTS \<and> c_used (cl s c))"

inductive server_step :: "'w sockets \<Rightarrow> 'w build \<Rightarrow> 'w daemon \<Rightarrow> 'w daemon \<Rightarrow> bool"
  for S :: "'w sockets" and B :: "'w build" where
  turn: "\<not> stop s \<Longrightarrow> so_epoll_wait S (loop_timeout s) (world s) = (evs, w) \<Longrightarrow> events_ok s evs \<Longrightarrow>
    loop_body n S B evs (s\<lparr>world := w\<rparr>) = Some (Ran s') \<Longrightarrow> server_step S B s s'"
| on_sig: "server_step S B s (s\<lparr>stop := True\<rparr>)"

inductive_cases server_stepE: "server_step S B s s'"

section \<open>The invariant of the server\<close>

text \<open>
  Between two turns of the loop: the pool is partitioned into the free list and the three
  queues, whose links, tails and count are exact; every queued request and the claim belong to
  a connected client; no mailbox transaction is in flight. \<open>owned C\<close> states this for the clients
  \<open>C\<close>; the server's are the slots in use (\<open>live\<close>).
\<close>

definition owned :: "nat set \<Rightarrow> 'w daemon \<Rightarrow> bool" where
  "owned C s \<longleftrightarrow> daemon_ok s \<and> \<not> mb_inflight s \<and> (\<forall>c. claim_owner s = Some c \<longrightarrow> c \<in> C) \<and>
     (\<exists>F Q. sched_ok s F Q [] \<and> (\<forall>i \<in> set_mset (qset Q). q_c (pool s i) \<in> C))"

definition live :: "'w daemon \<Rightarrow> nat set" where
  "live s = {c. c < MAX_CLIENTS \<and> c_used (cl s c)}"

definition server_inv :: "'w daemon \<Rightarrow> bool" where
  "server_inv s \<longleftrightarrow> owned (live s) s"

lemma ownedE:
  assumes "owned C s"
  obtains F Q where "sched_ok s F Q []" "\<forall>i \<in> set_mset (qset Q). q_c (pool s i) \<in> C" "daemon_ok s"
    "\<not> mb_inflight s" "\<forall>c. claim_owner s = Some c \<longrightarrow> c \<in> C" "claim_ncleanup s \<le> SPIPROXY_BATCH_MAX"
  using assms by (auto simp: owned_def daemon_ok_def)

lemma owned_mono: "owned C s \<Longrightarrow> C \<subseteq> D \<Longrightarrow> owned D s"
  unfolding owned_def by blast

lemma live_slots: "slots_of s' = slots_of s \<Longrightarrow> live s' = live s"
proof -
  assume "slots_of s' = slots_of s"
  then have "slot_of (cl s' c) = slot_of (cl s c)" for c by (metis comp_apply slots_of_def prod.inject)
  then show ?thesis by (simp add: live_def slot_of_def)
qed

lemma live_stable: "stable s s' \<Longrightarrow> live s' = live s"
  by (rule live_slots) (simp add: stable_def)

lemma owned_stable:
  assumes "owned C s" and st: "stable s s'" and "\<And>F Q. sched_ok s F Q [] \<Longrightarrow> sched_ok s' F Q []"
    and "mb_inflight s' = mb_inflight s" and "claim_owner s' = None \<or> claim_owner s' = claim_owner s"
  shows "owned C s'"
proof -
  from assms(1) obtain F Q where s: "sched_ok s F Q []" "\<forall>i \<in> set_mset (qset Q). q_c (pool s i) \<in> C" "daemon_ok s"
    "\<not> mb_inflight s" "\<forall>c. claim_owner s = Some c \<longrightarrow> c \<in> C" by (rule ownedE)
  have "daemon_ok s'" using st s(3) by (simp add: stable_def)
  moreover have "\<forall>i \<in> set_mset (qset Q). q_c (pool s' i) \<in> C" using s(2) stable_tags [OF st] by simp
  moreover have "\<forall>c. claim_owner s' = Some c \<longrightarrow> c \<in> C" using s(5) assms(5) by auto
  ultimately show ?thesis using assms(3) [OF s(1)] assms(4) s(4) unfolding owned_def by blast
qed

lemma owned_run_frame:
  assumes "owned C s" and r: "run_frame s s'" and "claim_of s' = claim_of s" and "mb_inflight s' = mb_inflight s"
  shows "owned C s'"
proof (rule owned_stable [OF assms(1)])
  show "stable s s'" using assms(3) by (intro run_frame_daemon_ok [OF r]) (simp add: claim_of_def)
qed (use assms(3,4) run_frame_sched_ok [OF r] in \<open>auto simp: claim_of_def\<close>)

lemma owned_io: "owned C s \<Longrightarrow> io_frame s s' \<Longrightarrow> owned C s'"
  by (erule owned_run_frame [OF _ io_run_frame]) (simp_all add: io_frame_iff claim_of_def)

lemma owned_serves:
  assumes "owned C s" and sv: "serves [] [] s s'" and "\<not> mb_inflight s'"
  shows "owned C s'"
proof -
  from assms(1) obtain F Q where s: "sched_ok s F Q []" "\<forall>i \<in> set_mset (qset Q). q_c (pool s i) \<in> C" "daemon_ok s"
    "\<forall>c. claim_owner s = Some c \<longrightarrow> c \<in> C" by (rule ownedE)
  have st: "stable s s'" using sv by (simp add: serves_def)
  obtain F' Q' where q: "sched_ok s' F' Q' []" "\<forall>q < 3. subseq (Q' q) (Q q)"
    and own: "owner_from (set_mset (qset Q)) s s'"
    using sv s(1) unfolding serves_def by (metis add.right_neutral mset.simps(1))
  have "\<forall>c. claim_owner s' = Some c \<longrightarrow> c \<in> C" using own s(2,4) by (auto simp: owner_from_def)
  moreover have "\<forall>i \<in> set_mset (qset Q'). q_c (pool s' i) \<in> C"
    using s(2) qset_subseq [OF q(2)] stable_tags [OF st] by auto
  ultimately show ?thesis using assms(3) q(1) serves_daemon_ok [OF sv s(3)] unfolding owned_def by blast
qed

lemma path_init:
  "i \<le> n \<Longrightarrow> n < MAX_QITEMS \<Longrightarrow> (\<And>i. i < n \<Longrightarrow> nx i = Some (i + 1)) \<Longrightarrow> path nx (Some i) [i..<n] (Some n)"
proof (induction "n - i" arbitrary: i)
  case (Suc k)
  then have "[i..<n] = i # [Suc i..<n]" by (simp add: upt_conv_Cons)
  with Suc show ?case by auto
qed simp

text \<open>A daemon with empty queues and no claim, before its pool is chained.\<close>

definition blank :: "'w daemon \<Rightarrow> bool" where
  "blank s \<longleftrightarrow> (\<forall>q < 3. qh s q = None \<and> qt s q = None) \<and> n_queued s = 0 \<and> q_next (pool s (MAX_QITEMS - 1)) = None \<and>
     claim_owner s = None \<and> \<not> mb_inflight s"

lemma chain_pool_sched:
  assumes "blank s"
  shows "sched_ok (chain_pool s) [0..<MAX_QITEMS] (\<lambda>q. []) []"
proof -
  let ?s = "chain_pool s"
  have nx: "nexts ?s i = (if i < MAX_QITEMS - 1 then Some (i + 1) else None)" if "i < MAX_QITEMS" for i
  proof (cases "i = 255")
    case True
    with assms show ?thesis by (simp add: chain_pool_def blank_def const_defs)
  next
    case False
    with that show ?thesis by (simp add: chain_pool_def const_defs)
  qed
  have "[0..<MAX_QITEMS] = [0..<MAX_QITEMS - 1] @ [MAX_QITEMS - 1]"
    using upt_Suc_append [of 0 "MAX_QITEMS - 1"] by (simp add: const_defs)
  then have "path (nexts ?s) (Some 0) [0..<MAX_QITEMS] None"
    using path_init [of 0 "MAX_QITEMS - 1" "nexts ?s"] nx
    by (simp add: path_append) (auto simp: const_defs)
  then show ?thesis
    using assms by (simp add: sched_ok_def links_def chained_def chain_pool_def blank_def)
qed

lemma chain_pool_owned:
  assumes "blank s" and "daemon_ok s"
  shows "owned C (chain_pool s)"
proof -
  let ?s = "chain_pool s"
  have "body_len i ?s = body_len i s" for i by (simp add: chain_pool_def body_len_def)
  moreover have "stats_ok ?s = stats_ok s" "claim_ncleanup ?s = claim_ncleanup s"
    by (simp_all add: stats_ok_def chain_pool_def rst_text_def)
  ultimately have "daemon_ok ?s" using assms(2) by (simp add: daemon_ok_def)
  moreover have "claim_owner ?s = None" "\<not> mb_inflight ?s" using assms(1) by (simp_all add: chain_pool_def blank_def)
  moreover have "qset (\<lambda>q. []) = {#}" by (simp add: qset_def)
  ultimately show ?thesis unfolding owned_def using chain_pool_sched [OF assms(1)] by force
qed

lemma chain_pool_inv: "blank s \<Longrightarrow> daemon_ok s \<Longrightarrow> server_inv (chain_pool s)"
  unfolding server_inv_def by (rule chain_pool_owned)

lemma zero_blank: "blank ((zero_daemon w)\<lparr>dev := d, sock := sk, pad := pd, freq := fr, rst_line := rl, rst_fd := rf,
       log_sink := sink\<rparr>)"
  by (simp add: blank_def zero_daemon_def)

lemma init_sched: "sched_ok (init_daemon d sk pd fr rl rf sink w) [0..<MAX_QITEMS] (\<lambda>q. []) []"
  unfolding init_daemon_def by (rule chain_pool_sched [OF zero_blank])

lemma init_inv:
  assumes "length d + length (case rl of Some l \<Rightarrow> l | None \<Rightarrow> ''off'') \<le> 1797" and "pd \<le> SPI_PAD_MAX" and "int32 fr"
  shows "server_inv (init_daemon d sk pd fr rl rf sink w)"
  unfolding init_daemon_def
  by (rule chain_pool_inv [OF zero_blank])
    (use assms in \<open>auto simp: daemon_ok_def zero_daemon_def bad_hdr_def body_len_def stats_ok_def rst_text_def
        zero_client_def int32_def const_defs split: option.splits\<close>)

section \<open>Dropping a client\<close>

definition without :: "nat \<Rightarrow> 'w daemon \<Rightarrow> (nat \<Rightarrow> nat list) \<Rightarrow> nat \<Rightarrow> nat list" where
  "without c s Q = (\<lambda>q. if q < 3 then filter (\<lambda>i. q_c (pool s i) \<noteq> c) (Q q) else Q q)"

lemma without_stable: "stable s s' \<Longrightarrow> without c s' Q = without c s Q"
  using stable_tags(1) [of s s'] by (auto simp: without_def fun_eq_iff)

lemma purge_all_holds:
  assumes "sched_ok s F Q L"
  shows "holds (purge_all c s) (\<lambda>s'. relinked s s' \<and> (\<exists>F'. sched_ok s' F' (without c s Q) L))"
proof -
  define Qk where "Qk k = (\<lambda>q. if q < k then filter (\<lambda>i. q_c (pool s i) \<noteq> c) (Q q) else Q q)" for k
  define G where "G k s1 \<longleftrightarrow> relinked s s1 \<and> (\<exists>F'. sched_ok s1 F' (Qk k) L)" for k s1
  have step: "holds (purge_queue c k s1) (G (Suc k))" if g: "G k s1" and k: "k < 3" for k s1
  proof -
    from g obtain F' where r: "relinked s s1" and F': "sched_ok s1 F' (Qk k) L" by (auto simp: G_def)
    have "q_c (pool s1 i) = q_c (pool s i)" for i using stable_tags relinked_stable [OF r] by blast
    then have "(Qk k)(k := filter (\<lambda>i. q_c (pool s1 i) \<noteq> c) (Qk k k)) = Qk (Suc k)"
      by (auto simp: Qk_def fun_eq_iff)
    with purge_queue_holds [OF F' k, of c] show ?thesis
      by (auto simp: G_def elim!: holds_mono intro: relinked_trans [OF r])
  qed
  have "G 0 s" using assms by (auto simp: G_def Qk_def)
  then have "holds (purge_queue c 0 s) (\<lambda>s1. holds (purge_queue c 1 s1) (\<lambda>s2. holds (purge_queue c 2 s2) (G 3)))"
    using step [of 0] step [of 1] step [of 2] by (auto intro!: holds_mono [OF step] simp: numeral_3_eq_3 numeral_2_eq_2)
  then show ?thesis unfolding purge_all_def holds_bind G_def Qk_def without_def .
qed

definition dropped :: "nat \<Rightarrow> 'w daemon \<Rightarrow> 'w daemon \<Rightarrow> bool" where
  "dropped c s s' \<longleftrightarrow> (\<forall>j. slot_of (cl s' j) = (if j = c then slot_of ((cl s c)\<lparr>c_used := False\<rparr>) else slot_of (cl s j))) \<and>
     item_of s' = item_of s \<and> conf_of s' = conf_of s \<and> stop s' = stop s \<and> sent s' = sent s \<and>
     mb_inflight s' = mb_inflight s \<and> next_cid s' = next_cid s \<and>
     claim_owner s' = (if claim_owner s = Some c then None else claim_owner s) \<and>
     (daemon_ok s \<longrightarrow> daemon_ok s')"

text \<open>Before the slot is released: the claim is gone, the queues are relinked, all else stands.\<close>

definition unclaimed :: "nat \<Rightarrow> 'w daemon \<Rightarrow> 'w daemon \<Rightarrow> bool" where
  "unclaimed c s s' \<longleftrightarrow> stable s s' \<and> item_of s' = item_of s \<and> sent s' = sent s \<and> mb_inflight s' = mb_inflight s \<and>
     claim_owner s' = (if claim_owner s = Some c then None else claim_owner s)"

lemma unclaimed_relinked: "unclaimed c s s1 \<Longrightarrow> relinked s1 s2 \<Longrightarrow> unclaimed c s s2"
  using relinked_stable [of s1 s2] relinked_owner [of s1 s2] stable_trans [of s s1 s2]
  by (simp add: unclaimed_def relinked_def)

lemma close_client_frame:
  "io_frame (s\<lparr>world := so_close S (c_fd (cl s c)) (so_epoll_del S (c_fd (cl s c)) (world s)),
     cl := (cl s)(c := (cl s c)\<lparr>c_used := False\<rparr>)\<rparr>) (close_client S B c s)"
  by (simp add: close_client_def Let_def)

lemma close_client_links: "sched_ok (close_client S B c s) F Q L = sched_ok s F Q L"
  using close_client_frame [where s = s and S = S and c = c and B = B] by (intro sched_ok_cong) (simp add: link_of_def io_frame_iff)

lemma close_client_dropped:
  assumes "unclaimed c s s2"
  shows "dropped c s (close_client S B c s2)"
proof -
  let ?s = "close_client S B c s2"
  have st: "stable s s2" using assms by (simp add: unclaimed_def)
  note io = close_client_frame [where s = s2 and S = S and c = c and B = B]
  have "slot_of \<circ> cl s2 = slot_of \<circ> cl s" and n: "next_cid s2 = next_cid s"
    using st by (simp_all add: stable_def slots_of_def)
  then have sl: "slot_of (cl s2 j) = slot_of (cl s j)" for j by (metis comp_apply)
  have "slot_of (cl ?s j) = (if j = c then slot_of ((cl s c)\<lparr>c_used := False\<rparr>) else slot_of (cl s j))" for j
    using sl [of j] sl [of c] io by (simp add: io_frame_iff slot_of_def)
  moreover have "item_of ?s = item_of s" "conf_of ?s = conf_of s" "next_cid ?s = next_cid s"
    using assms st io n by (auto simp: unclaimed_def stable_def io_frame_iff item_of_def fun_eq_iff conf_of_def)
  moreover have "daemon_ok ?s" if "daemon_ok s"
  proof -
    have "daemon_ok s2" using st that by (simp add: stable_def)
    with io show ?thesis by (auto simp: daemon_ok_def io_frame_iff body_len_def stats_ok_def rst_text_def)
  qed
  moreover have "stop ?s = stop s" "sent ?s = sent s" "mb_inflight ?s = mb_inflight s"
    "claim_owner ?s = (if claim_owner s = Some c then None else claim_owner s)"
    using assms io by (simp_all add: unclaimed_def stable_def io_frame_iff)
  ultimately show ?thesis unfolding dropped_def by blast
qed

context spi_backend
begin

lemma drop_claim_holds:
  assumes "sched_ok s F Q L" and "claim_ncleanup s \<le> SPIPROXY_BATCH_MAX"
  shows "holds (if claim_owner s = Some c then claim_end B True s else Some s)
    (\<lambda>s1. unclaimed c s s1 \<and> sched_ok s1 F Q L)"
  using assms(1)
  by (auto simp: wp_simps unclaimed_def run_frame_sched_ok item_of_def fun_eq_iff
      intro!: holds_mono [OF claim_end_holds [OF assms(2)]] run_frame_daemon_ok)

lemma client_drop_holds:
  assumes "sched_ok s F Q L" and "claim_ncleanup s \<le> SPIPROXY_BATCH_MAX"
  shows "holds (client_drop S B c s) (\<lambda>s'. dropped c s s' \<and> (\<exists>F'. sched_ok s' F' (without c s Q) L))"
  unfolding client_drop_def holds_bind holds_Some
proof (rule holds_mono [OF drop_claim_holds [OF assms]], elim conjE)
  fix s1 assume u: "unclaimed c s s1" and q: "sched_ok s1 F Q L"
  have w: "without c s1 Q = without c s Q" using u by (simp add: unclaimed_def without_stable)
  show "holds (purge_all c s1) (\<lambda>s2. dropped c s (close_client S B c s2) \<and>
      (\<exists>F'. sched_ok (close_client S B c s2) F' (without c s Q) L))"
    by (rule holds_mono [OF purge_all_holds [OF q]])
      (auto simp: w close_client_links intro: close_client_dropped unclaimed_relinked [OF u])
qed

end

section \<open>Every operation keeps the invariant\<close>

lemma inv_run_frame:
  assumes "server_inv s" and r: "run_frame s s'" and "claim_of s' = claim_of s" and "mb_inflight s' = mb_inflight s"
  shows "server_inv s' \<and> live s' = live s"
proof -
  have "slots_of s' = slots_of s" using r by (simp add: run_frame_def)
  then have "live s' = live s" by (rule live_slots)
  with owned_run_frame [OF assms(1) [unfolded server_inv_def] r assms(3,4)] show ?thesis by (simp add: server_inv_def)
qed

lemma inv_io: "server_inv s \<Longrightarrow> io_frame s s' \<Longrightarrow> server_inv s' \<and> live s' = live s"
  by (erule inv_run_frame [OF _ io_run_frame]) (simp_all add: io_frame_iff claim_of_def)

lemma inv_world [simp]: "server_inv (s\<lparr>world := w\<rparr>) = server_inv s" "live (s\<lparr>world := w\<rparr>) = live s"
proof -
  show "live (s\<lparr>world := w\<rparr>) = live s" by (simp add: live_def)
  have "server_inv s \<Longrightarrow> server_inv (s\<lparr>world := w\<rparr>)" for s :: "'a daemon" and w
    using inv_io [of s "s\<lparr>world := w\<rparr>"] by (simp add: io_frame_iff)
  from this [of s w] this [of "s\<lparr>world := w\<rparr>" "world s"] show "server_inv (s\<lparr>world := w\<rparr>) = server_inv s" by auto
qed

lemma owned_send_resp:
  assumes "owned C s" and "length body \<le> SPIPROXY_MSG_MAX"
  shows "holds (send_resp B c h st body s) (\<lambda>s'. owned C s' \<and> slots_of s' = slots_of s \<and> conf_of s' = conf_of s)"
  by (rule holds_mono [OF send_resp_holds [OF assms(2)]])
    (auto simp: run_frame_def intro: owned_run_frame [OF assms(1)])

lemma n_msgs_run: "run_frame s (s\<lparr>cl := (cl s)(c := (cl s c)\<lparr>c_n_msgs := n\<rparr>)\<rparr>)"
  by (simp add: run_frame_def link_of_def tags_of_def fun_eq_iff conf_of_def slots_of_def)

lemma owned_enqueue:
  assumes own: "owned C s" and c: "c \<in> C"
    and len: "unat (h_len h) = length body" "length body \<le> SPIPROXY_MSG_MAX"
  shows "holds (enqueue B c h body s) (\<lambda>s'. owned C s' \<and> slots_of s' = slots_of s \<and> conf_of s' = conf_of s)"
proof (cases "freel s")
  case None
  then show ?thesis unfolding enqueue_full [OF None] using owned_send_resp [OF own, of "[]"] by simp
next
  case (Some it)
  obtain F' Q where q: "sched_ok s F' Q []" and qd: "\<forall>i \<in> set_mset (qset Q). q_c (pool s i) \<in> C"
    and rest: "daemon_ok s" "\<not> mb_inflight s" "\<forall>c. claim_owner s = Some c \<longrightarrow> c \<in> C"
    using own by (rule ownedE)
  then obtain F where F: "F' = it # F" using Some by (cases F') (auto simp: sched_ok_def links_def chained_def)
  let ?q = "prio_queue (h_flags h)"
  have Q': "set_mset (qset (Q(?q := Q ?q @ [it]))) \<subseteq> insert it (set_mset (qset Q))" by (auto simp: qset_def)
  show ?thesis
  proof (rule holds_mono [OF enqueue_links [OF q [unfolded F] len]], elim conjE)
    fix s' :: "'a daemon"
    assume s': "sched_ok s' F (Q(?q := Q ?q @ [it])) []" "tags_of s' = (tags_of s)(it := (c, h))"
      "slots_of s' = slots_of s" "conf_of s' = conf_of s" "claim_of s' = claim_of s"
      "mb_inflight s' = mb_inflight s" "cl s' = cl s"
    have tag: "q_c (pool s' i) = (if i = it then c else q_c (pool s i))"
      "body_len i s' = (if i = it then length body else body_len i s)" for i
      using fun_cong [OF s'(2), of i] len(1) by (auto simp: tags_of_def body_len_def)
    have "\<forall>i \<in> set_mset (qset (Q(?q := Q ?q @ [it]))). q_c (pool s' i) \<in> C" using qd c Q' by (auto simp: tag)
    moreover have "daemon_ok s'"
      using rest(1) s'(4,5,7) len(2) by (auto simp: daemon_ok_def tag stats_ok_def rst_text_def conf_of_def claim_of_def)
    moreover have "\<forall>c. claim_owner s' = Some c \<longrightarrow> c \<in> C" "\<not> mb_inflight s'" using rest s' by (simp_all add: claim_of_def)
    ultimately show "owned C s' \<and> slots_of s' = slots_of s \<and> conf_of s' = conf_of s"
      using s'(1,3,4) unfolding owned_def by blast
  qed
qed

lemma enqueue_inv:
  assumes "server_inv s" and "c \<in> live s" and "unat (h_len h) = length body" and "length body \<le> SPIPROXY_MSG_MAX"
  shows "holds (enqueue B c h body s) (\<lambda>s'. server_inv s' \<and> live s' = live s)"
  by (rule holds_mono [OF owned_enqueue [OF assms(1) [unfolded server_inv_def] assms(2-4)]])
    (metis live_slots server_inv_def)

lemma frame_okD:
  assumes "frame_ok msg" and "length msg \<le> sizeof_hdr + SPIPROXY_MSG_MAX"
  shows "unat (h_len (dec_hdr (take sizeof_hdr msg))) = length (drop sizeof_hdr msg)"
    and "length (drop sizeof_hdr msg) \<le> SPIPROXY_MSG_MAX" and "sizeof_hdr \<le> length msg"
  using assms by (auto simp: frame_ok_def Let_def const_defs unat_of_nat)

lemma owned_client_frame:
  assumes own: "owned C s" and c: "c \<in> C" and len: "length msg \<le> sizeof_hdr + SPIPROXY_MSG_MAX"
  shows "holds (client_frame B c msg s) (\<lambda>s'. owned C s' \<and> slots_of s' = slots_of s \<and> conf_of s' = conf_of s)"
proof (cases "frame_ok msg")
  case False
  then show ?thesis using owned_send_resp [OF own, of "[]"] by (auto simp: client_frame_def Let_def)
next
  case True
  let ?s = "s\<lparr>cl := (cl s)(c := (cl s c)\<lparr>c_n_msgs := c_n_msgs (cl s c) + 1\<rparr>)\<rparr>"
  have "slots_of ?s = slots_of s" "conf_of ?s = conf_of s" using n_msgs_run [of s c] by (simp_all add: run_frame_def)
  moreover have "owned C ?s" by (rule owned_run_frame [OF own n_msgs_run]) (simp_all add: claim_of_def)
  ultimately show ?thesis
    using owned_enqueue [OF _ c frame_okD(1,2) [OF True len], of ?s] True
    by (auto simp: client_frame_def Let_def)
qed

lemma slot_of_used: "slot_of c = slot_of d \<Longrightarrow> c_used c = c_used d"
  by (simp add: slot_of_def)

lemma dropped_unused: "dropped c s s' \<Longrightarrow> \<not> c_used (cl s' c)"
  using slot_of_used [of "cl s' c" "(cl s c)\<lparr>c_used := False\<rparr>"] by (simp add: dropped_def)

lemma dropped_live: "dropped c s s' \<Longrightarrow> live s' = live s - {c}"
proof -
  assume d: "dropped c s s'"
  then have "slot_of (cl s' j) = (if j = c then slot_of ((cl s c)\<lparr>c_used := False\<rparr>) else slot_of (cl s j))" for j
    by (simp add: dropped_def)
  then have "c_used (cl s' j) = (j \<noteq> c \<and> c_used (cl s j))" for j
    by (metis slot_of_used client.select_convs(2) client.surjective client.update_convs(2))
  then show ?thesis by (auto simp: live_def)
qed

lemma length_comm_of: "length (comm_of r) < COMM_PATH_MAX"
proof -
  have "length (takeWhile P (take (COMM_PATH_MAX - 1) f)) < COMM_PATH_MAX" for P f
    by (rule order_le_less_trans [OF length_takeWhile_le]) (simp add: const_defs)
  moreover have "Suc 0 < COMM_PATH_MAX" by (simp add: const_defs)
  ultimately show ?thesis by (auto simp: comm_of_def Let_def split: option.split)
qed

lemma sint_int32: "int32 (sint (w :: u32))"
  using sint_range_size [of w] by (simp add: int32_def word_size)

lemma new_client_inv:
  assumes inv: "server_inv s" and i: "i < MAX_CLIENTS" and c: "c_used c" "length (c_comm c) < COMM_PATH_MAX" "int32 (c_pid c)"
  shows "server_inv (s\<lparr>next_cid := x, cl := (cl s)(i := c)\<rparr>) \<and> live s \<subseteq> live (s\<lparr>next_cid := x, cl := (cl s)(i := c)\<rparr>)"
proof -
  let ?s = "s\<lparr>next_cid := x, cl := (cl s)(i := c)\<rparr>"
  have sub: "live s \<subseteq> live ?s" using i c by (auto simp: live_def)
  from inv have "owned (live ?s) s" using owned_mono [OF _ sub] by (simp add: server_inv_def)
  then obtain F Q where s: "sched_ok s F Q []" "\<forall>j \<in> set_mset (qset Q). q_c (pool s j) \<in> live ?s" "daemon_ok s"
    "\<not> mb_inflight s" "\<forall>c. claim_owner s = Some c \<longrightarrow> c \<in> live ?s" by (rule ownedE)
  have "sched_ok ?s F Q []" using s(1) by (subst sched_ok_cong) (simp_all add: link_of_def)
  moreover have "daemon_ok ?s" using s(3) c by (auto simp: daemon_ok_def body_len_def stats_ok_def rst_text_def)
  ultimately have "owned (live ?s) ?s" using s unfolding owned_def by auto
  with sub show ?thesis by (simp add: server_inv_def)
qed

lemma accept_inv:
  assumes inv: "server_inv s"
  shows "server_inv (accept_client S B s) \<and> live s \<subseteq> live (accept_client S B s)"
proof -
  obtain fd w where a: "so_accept S (world s) = (fd, w)" by fastforce
  show ?thesis
  proof (cases "fd < 0 \<or> find (\<lambda>i. \<not> c_used (cl s i)) [0..<MAX_CLIENTS] = None")
    case True
    then show ?thesis using inv by (auto simp: accept_client_def a Let_def)
  next
    case False
    then obtain i where i: "find (\<lambda>i. \<not> c_used (cl s i)) [0..<MAX_CLIENTS] = Some i" by auto
    obtain p w1 where p: "so_peer_pid S fd w = (p, w1)" by fastforce
    obtain f w2 where f: "so_proc_comm S (sint p) w1 = (f, w2)" by fastforce
    let ?c = "\<lparr>c_fd = fd, c_used = True, c_id = next_cid s + 1, c_pid = sint p, c_comm = comm_of f,
      c_n_ops = 0, c_n_msgs = 0, c_n_err = 0\<rparr>"
    let ?s = "s\<lparr>next_cid := next_cid s + 1, cl := (cl s)(i := ?c)\<rparr>"
    have "i < MAX_CLIENTS" using i by (auto simp: find_Some_iff)
    then have n: "server_inv ?s \<and> live s \<subseteq> live ?s"
      by (intro new_client_inv [OF inv]) (simp_all add: length_comm_of sint_int32)
    have "io_frame ?s (accept_client S B s)"
      using False i
      by (auto simp: accept_client_def a p f Let_def intro!: io_frame_trans [OF _ io_frame_trans [OF log_msg_io log_trace_io]])
        (simp add: io_frame_iff)
    from inv_io [OF conjunct1 [OF n] this] n show ?thesis by simp
  qed
qed

context spi_backend
begin

lemma owned_client_drop:
  assumes "owned C s"
  shows "holds (client_drop S B c s) (\<lambda>s'. owned (C - {c}) s' \<and> dropped c s s')"
proof -
  obtain F Q where s: "sched_ok s F Q []" "\<forall>i \<in> set_mset (qset Q). q_c (pool s i) \<in> C" "daemon_ok s"
    "\<not> mb_inflight s" "\<forall>c. claim_owner s = Some c \<longrightarrow> c \<in> C" "claim_ncleanup s \<le> SPIPROXY_BATCH_MAX"
    using assms by (rule ownedE)
  show ?thesis
  proof (rule holds_mono [OF client_drop_holds [OF s(1,6)]], elim conjE exE)
    fix s' F' assume d: "dropped c s s'" and q: "sched_ok s' F' (without c s Q) []"
    have "item_of s' i = item_of s i" for i using d by (simp add: dropped_def)
    then have "q_c (pool s' i) = q_c (pool s i)" for i by (simp add: item_of_def)
    then have "\<forall>i \<in> set_mset (qset (without c s Q)). q_c (pool s' i) \<in> C - {c}"
      using s(2) by (auto simp: qset_def without_def)
    moreover have "daemon_ok s'" "\<not> mb_inflight s'" "\<forall>j. claim_owner s' = Some j \<longrightarrow> j \<in> C - {c}"
      using s d by (auto simp: dropped_def split: if_splits)
    ultimately show "owned (C - {c}) s' \<and> dropped c s s'" using q d unfolding owned_def by blast
  qed
qed

lemma client_drop_inv:
  assumes "server_inv s"
  shows "holds (client_drop S B c s) (\<lambda>s'. server_inv s' \<and> live s' = live s - {c})"
  by (rule holds_mono [OF owned_client_drop [OF assms [unfolded server_inv_def]]])
    (auto simp: server_inv_def dropped_live)

lemma client_msg_inv:
  assumes inv: "server_inv s" and c: "c \<in> live s"
  shows "holds (client_msg S B c s) (\<lambda>s'. server_inv s' \<and> live s - {c} \<subseteq> live s')"
proof -
  obtain r w where r: "so_recv S (c_fd (cl s c)) (world s) = (r, w)" by fastforce
  let ?s = "s\<lparr>world := w\<rparr>"
  have drop: "holds (client_drop S B c ?s) (\<lambda>s'. server_inv s' \<and> live s - {c} \<subseteq> live s')"
    by (rule holds_mono [OF client_drop_inv]) (auto simp: inv)
  have frame: "holds (client_frame B c msg ?s) (\<lambda>s'. server_inv s' \<and> live s - {c} \<subseteq> live s')"
    if "length msg \<le> sizeof_hdr + SPIPROXY_MSG_MAX" for msg
  proof (rule holds_mono [OF owned_client_frame [OF _ c that]])
    show "owned (live s) ?s" using inv inv_world(1) [where s = s and w = w] by (simp add: server_inv_def)
    show "server_inv s' \<and> live s - {c} \<subseteq> live s'"
      if "owned (live s) s' \<and> slots_of s' = slots_of ?s \<and> conf_of s' = conf_of ?s" for s'
      using that live_slots [of s' ?s] by (auto simp: server_inv_def)
  qed
  show ?thesis by (auto simp: client_msg_def r Let_def intro!: drop frame split: option.split)
qed

lemma handle_events_inv:
  "server_inv s \<Longrightarrow> distinct evs \<Longrightarrow> \<forall>c. Client c \<in> set evs \<longrightarrow> c \<in> live s \<Longrightarrow> holds (handle_events S B evs s) server_inv"
proof (induction evs arbitrary: s)
  case Nil
  then show ?case by (simp add: wp_simps)
next
  case (Cons e evs)
  show ?case
  proof (cases e)
    case Listening
    with Cons accept_inv [OF Cons.prems(1), of S B] show ?thesis by auto
  next
    case (Client c)
    have "holds (client_msg S B c s) (\<lambda>s'. server_inv s' \<and> live s - {c} \<subseteq> live s')"
      using Cons.prems Client by (intro client_msg_inv) auto
    moreover have "holds (handle_events S B evs s') server_inv" if "server_inv s'" "live s - {c} \<subseteq> live s'" for s'
      using Cons.prems that Client by (intro Cons.IH) auto
    ultimately show ?thesis using Client by (auto simp: wp_simps elim: holds_mono)
  qed
qed

lemma claim_end_inv:
  assumes "server_inv s"
  shows "holds (claim_end B ab s) server_inv"
proof -
  have n: "claim_ncleanup s \<le> SPIPROXY_BATCH_MAX" using assms by (simp add: server_inv_def owned_def daemon_ok_def)
  have "server_inv s'" if s': "run_frame s s'" "mb_inflight s' = mb_inflight s" "claim_owner s' = None" "claim_ncleanup s' = 0" for s'
  proof -
    have st: "stable s s'" using s' by (intro run_frame_daemon_ok) simp_all
    have "owned (live s) s'"
      by (rule owned_stable [OF assms [unfolded server_inv_def] st]) (use s' run_frame_sched_ok [OF s'(1)] in auto)
    then show ?thesis by (simp add: server_inv_def live_stable [OF st])
  qed
  then show ?thesis by (auto intro!: holds_mono [OF claim_end_holds [OF n]])
qed

lemma expire_claim_inv:
  assumes "server_inv s"
  shows "holds (expire_claim B s) server_inv"
proof -
  obtain t s1 where t: "now_us (b_kernel B) s = (t, s1)" by fastforce
  have s1: "server_inv s1" using inv_io [OF assms io_frame_now_us [OF t]] by simp
  have "server_inv (log_debug (b_kernel B) x (log_warn (b_kernel B) y s1))" for x y
    using inv_io [OF s1 io_frame_trans [OF log_msg_io log_trace_io]] by simp
  then show ?thesis
    using assms s1 by (simp add: expire_claim_def t Let_def wp_simps claim_end_inv split: option.split)
qed

lemma drain_inv:
  assumes "server_inv s"
  shows "ends (drain_queues n B b s) server_inv"
proof -
  obtain F Q where q: "sched_ok s F Q []" and ok: "daemon_ok s" and mb: "\<not> mb_inflight s"
    using assms [unfolded server_inv_def] by (rule ownedE)
  have "server_inv s'" if "serves [] [] s s'" "\<not> mb_inflight s'" for s'
  proof -
    have "stable s s'" using that(1) by (simp add: serves_def)
    from owned_serves [OF assms [unfolded server_inv_def] that] live_stable [OF this] show ?thesis
      by (simp add: server_inv_def)
  qed
  then show ?thesis by (intro ends_mono [OF drain_serves [OF q ok]]) (use mb in auto)
qed

lemma loop_body_inv:
  assumes "server_inv s" and "events_ok s evs"
  shows "ends (loop_body n S B evs s) server_inv"
  unfolding loop_body_def ends_simps
  using assms(2)
  by (auto simp: events_ok_def live_def intro!: holds_mono [OF handle_events_inv [OF assms(1)]]
      holds_mono [OF expire_claim_inv] drain_inv)

lemma server_step_inv: "server_step S B s s' \<Longrightarrow> server_inv s \<Longrightarrow> server_inv s'"
proof (induction rule: server_step.induct)
  case (turn s evs w n s')
  have "events_ok (s\<lparr>world := w\<rparr>) evs" using turn.hyps(3) by (simp add: events_ok_def)
  then show ?case using loop_body_inv [of "s\<lparr>world := w\<rparr>" evs n S] turn by (simp add: wp_simps)
next
  case (on_sig s)
  have "sched_ok (s\<lparr>stop := True\<rparr>) F Q [] = sched_ok s F Q []" for F Q
    by (rule sched_ok_cong) (simp add: link_of_def)
  moreover have "daemon_ok (s\<lparr>stop := True\<rparr>) = daemon_ok s"
    by (simp add: daemon_ok_def body_len_def stats_ok_def rst_text_def)
  ultimately show ?case using on_sig by (simp add: server_inv_def owned_def live_def)
qed

end

inductive reachable :: "'w sockets \<Rightarrow> 'w build \<Rightarrow> 'w daemon \<Rightarrow> 'w daemon \<Rightarrow> bool"
  for S :: "'w sockets" and B :: "'w build" and s0 :: "'w daemon" where
  start: "reachable S B s0 s0"
| step: "reachable S B s0 s \<Longrightarrow> server_step S B s s' \<Longrightarrow> reachable S B s0 s'"

context spi_backend
begin

lemma reachable_inv: "reachable S B s0 s \<Longrightarrow> server_inv s0 \<Longrightarrow> server_inv s"
  by (induction rule: reachable.induct) (auto intro: server_step_inv)

end

end
