(* ===== verification/Parse_Uint.thy ===== *)
theory Parse_Uint
  imports C_Printf
begin

text \<open>
  Command-line integers (\<^verbatim>\<open>parse.c\<close>): \<^verbatim>\<open>strtoul\<close> of the C library, as far as bases 0, 10 and
  16 go, and \<open>parse_uint\<close>, which turns its outcome into a value or a diagnostic. Shown: which
  strings are accepted and with what value, that printed numbers are read back, and that a
  minus sign wraps around.
\<close>

section \<open>strtoul\<close>

definition digit_val :: "char \<Rightarrow> nat" where
  "digit_val c =
     (let n = of_char c
      in if 48 \<le> n \<and> n \<le> 57 then n - 48
         else if 97 \<le> n \<and> n \<le> 122 then n - 87
         else if 65 \<le> n \<and> n \<le> 90 then n - 55
         else 255)"

definition is_digit :: "nat \<Rightarrow> char \<Rightarrow> bool" where
  "is_digit b c \<longleftrightarrow> digit_val c < b"

definition is_space :: "char \<Rightarrow> bool" where
  "is_space c \<longleftrightarrow> c = CHR '' '' \<or> 9 \<le> (of_char c :: nat) \<and> (of_char c :: nat) \<le> 13"

definition digits_val :: "nat \<Rightarrow> string \<Rightarrow> nat" where
  "digits_val b ds = foldl (\<lambda>v c. v * b + digit_val c) 0 ds"

definition ULONG_MAX :: nat where
  "ULONG_MAX = 2 ^ 64 - 1"

fun split_sign :: "string \<Rightarrow> bool \<times> string" where
  "split_sign (c # t) = (if c = CHR ''-'' then (True, t) else if c = CHR ''+'' then (False, t) else (False, c # t))"
| "split_sign [] = (False, [])"

text \<open>The base in force and what follows the prefix; \<^verbatim>\<open>0x\<close> counts only before a hex digit.\<close>

definition split_base :: "nat \<Rightarrow> string \<Rightarrow> nat \<times> string" where
  "split_base base t =
     (case t of
        z # x # d # r \<Rightarrow>
          if (base = 0 \<or> base = 16) \<and> z = CHR ''0'' \<and> (x = CHR ''x'' \<or> x = CHR ''X'') \<and> is_digit 16 d
          then (16, d # r)
          else if base = 0 then (if z = CHR ''0'' then 8 else 10, t) else (base, t)
      | z # r \<Rightarrow> if base = 0 then (if z = CHR ''0'' then 8 else 10, t) else (base, t)
      | [] \<Rightarrow> (if base = 0 then 10 else base, t))"

text \<open>Value, unread rest, and whether \<^verbatim>\<open>errno\<close> is \<^verbatim>\<open>ERANGE\<close>; without digits the rest is all of \<open>s\<close>.\<close>

definition strtoul :: "string \<Rightarrow> nat \<Rightarrow> nat \<times> string \<times> bool" where
  "strtoul s base =
     (let (neg, t) = split_sign (dropWhile is_space s);
          (b, t) = split_base base t;
          ds = takeWhile (is_digit b) t;
          n = digits_val b ds
      in if ds = [] then (0, s, False)
         else if ULONG_MAX < n then (ULONG_MAX, dropWhile (is_digit b) t, True)
         else (if neg then (2 ^ 64 - n) mod 2 ^ 64 else n, dropWhile (is_digit b) t, False))"

section \<open>parse.c\<close>

definition parse_uint :: "string \<Rightarrow> nat \<Rightarrow> nat \<Rightarrow> nat \<Rightarrow> string + nat" where
  "parse_uint s base lo hi =
     (let (v, rest, erange) = strtoul s base
      in if rest = s \<or> rest \<noteq> [] \<or> erange \<or> v < lo \<or> hi < v
         then Inl (''invalid numeric argument '' @ [CHR 0x27] @ s @ [CHR 0x27, CHR 0x0A])
         else Inr v)"

section \<open>Accepted strings\<close>

lemma takeWhile_whole: "dropWhile p t = [] \<longleftrightarrow> takeWhile p t = t"
  by (metis append.right_neutral dropWhile_eq_Nil_conv takeWhile_dropWhile_id takeWhile_eq_all_conv)

lemma strtoul_whole:
  assumes "split_sign (dropWhile is_space s) = (neg, t)" and "split_base base t = (b, ds)"
    and "ds \<noteq> []" and "\<forall>c \<in> set ds. is_digit b c"
  shows "strtoul s base =
    (if ULONG_MAX < digits_val b ds then (ULONG_MAX, [], True)
     else (if neg then (2 ^ 64 - digits_val b ds) mod 2 ^ 64 else digits_val b ds, [], False))"
proof -
  have "takeWhile (is_digit b) ds = ds" "dropWhile (is_digit b) ds = []" using assms(4) by auto
  then show ?thesis unfolding strtoul_def by (simp only: assms(1-3) Let_def prod.case if_False)
qed

text \<open>One digit string after optional blanks and sign, for a base that takes no prefix.\<close>

definition numeral_10 :: "string \<Rightarrow> bool \<Rightarrow> string \<Rightarrow> bool" where
  "numeral_10 s neg ds \<longleftrightarrow>
     (\<exists>sp sg. s = sp @ sg @ ds \<and> (\<forall>c \<in> set sp. is_space c) \<and> sg \<in> (if neg then {''-''} else {'''', ''+''}) \<and>
        ds \<noteq> [] \<and> (\<forall>c \<in> set ds. is_digit 10 c))"

lemma digit_not_space: "is_digit 10 c \<Longrightarrow> \<not> is_space c"
  by (auto simp: is_digit_def is_space_def digit_val_def Let_def split: if_splits)

lemma digit_not_sign: "is_digit 10 c \<Longrightarrow> c \<noteq> CHR ''-'' \<and> c \<noteq> CHR ''+''"
  by (auto simp: is_digit_def digit_val_def)

lemma sign_not_space: "\<not> is_space CHR ''-''" "\<not> is_space CHR ''+''"
  by (simp_all add: is_space_def)

lemma split_base_10 [simp]: "split_base 10 t = (10, t)"
  by (auto simp: split_base_def split: list.splits)

lemma dropWhile_blanks: "\<forall>c \<in> set sp. is_space c \<Longrightarrow> dropWhile is_space (sp @ t) = dropWhile is_space t"
  by (induction sp) auto

lemma numeral_10_split:
  assumes "numeral_10 s neg ds"
  shows "split_sign (dropWhile is_space s) = (neg, ds)"
proof -
  obtain sp sg where s: "s = sp @ sg @ ds" "\<forall>c \<in> set sp. is_space c" "sg \<in> (if neg then {''-''} else {'''', ''+''})"
    and ds: "ds \<noteq> []" "\<forall>c \<in> set ds. is_digit 10 c"
    using assms by (auto simp: numeral_10_def)
  obtain d r where d: "ds = d # r" "is_digit 10 d" using ds by (cases ds) auto
  have "dropWhile is_space s = sg @ ds"
    using s d digit_not_space [OF d(2)] sign_not_space by (auto simp: dropWhile_blanks split: if_splits)
  then show ?thesis using s(3) d digit_not_sign [OF d(2)] by (auto split: if_splits)
qed

lemma split_sign_cases:
  assumes "split_sign t = (neg, u)"
  obtains sg where "t = sg @ u" "sg \<in> (if neg then {''-''} else {'''', ''+''})"
  using assms that by (cases t) (auto split: if_splits)

lemma split_numeral_10:
  assumes "split_sign (dropWhile is_space s) = (neg, ds)" and "ds \<noteq> []" and "\<forall>c \<in> set ds. is_digit 10 c"
  shows "numeral_10 s neg ds"
proof -
  from assms(1) obtain sg where "dropWhile is_space s = sg @ ds" "sg \<in> (if neg then {''-''} else {'''', ''+''})"
    by (rule split_sign_cases)
  then have "s = takeWhile is_space s @ sg @ ds" "\<forall>c \<in> set (takeWhile is_space s). is_space c"
    "sg \<in> (if neg then {''-''} else {'''', ''+''})"
    by (metis takeWhile_dropWhile_id, auto dest: set_takeWhileD)
  with assms(2,3) show ?thesis unfolding numeral_10_def by blast
qed

lemma parse_uint_10:
  "parse_uint s 10 lo hi = Inr v \<longleftrightarrow>
     (\<exists>neg ds. numeral_10 s neg ds \<and> digits_val 10 ds \<le> ULONG_MAX \<and>
        v = (if neg then (2 ^ 64 - digits_val 10 ds) mod 2 ^ 64 else digits_val 10 ds) \<and> lo \<le> v \<and> v \<le> hi)"
  (is "?l \<longleftrightarrow> ?r")
proof
  obtain neg t where t: "split_sign (dropWhile is_space s) = (neg, t)" by (cases "split_sign (dropWhile is_space s)")
  assume ?l
  with t have d: "takeWhile (is_digit 10) t \<noteq> []" "dropWhile (is_digit 10) t = []"
    and v: "digits_val 10 (takeWhile (is_digit 10) t) \<le> ULONG_MAX"
      "v = (if neg then (2 ^ 64 - digits_val 10 (takeWhile (is_digit 10) t)) mod 2 ^ 64
            else digits_val 10 (takeWhile (is_digit 10) t))" "lo \<le> v" "v \<le> hi"
    by (auto simp: parse_uint_def strtoul_def Let_def split: if_splits)
  from d have w: "takeWhile (is_digit 10) t = t" by (simp add: takeWhile_whole)
  with d have "numeral_10 s neg t" using t by (auto intro!: split_numeral_10)
  with v show ?r unfolding w by blast
next
  assume ?r
  then obtain neg ds where n: "numeral_10 s neg ds" and v: "digits_val 10 ds \<le> ULONG_MAX"
    "v = (if neg then (2 ^ 64 - digits_val 10 ds) mod 2 ^ 64 else digits_val 10 ds)" "lo \<le> v" "v \<le> hi" by blast
  then have ds: "ds \<noteq> []" "\<forall>c \<in> set ds. is_digit 10 c" "s \<noteq> []" by (auto simp: numeral_10_def)
  from strtoul_whole [OF numeral_10_split [OF n] split_base_10 ds(1,2)] v ds(3) show ?l
    by (auto simp: parse_uint_def)
qed

section \<open>Printed numbers are read back\<close>

lemma digit_val_char: "d < 16 \<Longrightarrow> digit_val (digit_char d) = d"
  by (auto simp: digit_val_def digit_char_def Let_def)

lemma digits_val_snoc: "digits_val b (ds @ [c]) = digits_val b ds * b + digit_val c"
  by (simp add: digits_val_def)

lemma digits_val_dec: "digits_val 10 (show_dec n) = n"
  by (induction n rule: show_dec.induct)
    (subst show_dec.simps, simp add: digits_val_snoc digit_val_char, simp add: digits_val_def digit_val_char)

lemma digits_val_hex: "digits_val 16 (show_hex n) = n"
  by (induction n rule: show_hex.induct)
    (subst show_hex.simps, simp add: digits_val_snoc digit_val_char, simp add: digits_val_def digit_val_char)

lemma show_dec_digits: "show_dec n \<noteq> [] \<and> (\<forall>c \<in> set (show_dec n). is_digit 10 c)"
  by (induction n rule: show_dec.induct) (subst (1 2) show_dec.simps, auto simp: is_digit_def digit_val_char)

lemma show_hex_digits: "show_hex n \<noteq> [] \<and> (\<forall>c \<in> set (show_hex n). is_digit 16 c)"
  by (induction n rule: show_hex.induct) (subst (1 2) show_hex.simps, auto simp: is_digit_def digit_val_char)

lemma parse_dec:
  assumes "lo \<le> n" and "n \<le> hi" and "hi \<le> ULONG_MAX"
  shows "parse_uint (show_dec n) 10 lo hi = Inr n"
proof -
  have "numeral_10 (show_dec n) False (show_dec n)" using show_dec_digits by (auto simp: numeral_10_def)
  then show ?thesis unfolding parse_uint_10 using assms by (intro exI conjI) (auto simp: digits_val_dec)
qed

lemma parse_hex_gen:
  assumes "lo \<le> n" and "n \<le> hi" and "hi \<le> ULONG_MAX" and "b = 0 \<or> b = 16"
    and "digits_val 16 ds = n" and "ds \<noteq> []" and "\<forall>c \<in> set ds. is_digit 16 c"
  shows "parse_uint (''0x'' @ ds) b lo hi = Inr n"
proof -
  obtain d r where ds: "ds = d # r" "is_digit 16 d" using assms(6,7) by (cases ds) auto
  have sg: "split_sign (dropWhile is_space (''0x'' @ ds)) = (False, ''0x'' @ ds)" by (simp add: is_space_def)
  have "split_base b (''0x'' @ ds) = (16, ds)" using ds assms(4) by (auto simp: split_base_def)
  from strtoul_whole [OF sg this assms(6,7)] assms(1-3,5) show ?thesis by (auto simp: parse_uint_def)
qed

lemma parse_uint_range: "parse_uint s b lo hi = Inr v \<Longrightarrow> lo \<le> v \<and> v \<le> hi"
  by (auto simp: parse_uint_def split: prod.splits if_splits)

section \<open>Properties\<close>

text \<open>
  C33. A base-10 argument is accepted exactly when it is blanks, an optional sign and at least one
  decimal digit, with nothing after them, whose digits do not exceed \<^verbatim>\<open>ULONG_MAX\<close> and whose
  value lies in the range asked for; the value of a negative numeral is its two's complement.
\<close>

theorem parse_uint_accepts:
  "parse_uint s 10 lo hi = Inr v \<longleftrightarrow>
     (\<exists>neg ds. numeral_10 s neg ds \<and> digits_val 10 ds \<le> ULONG_MAX \<and>
        v = (if neg then (2 ^ 64 - digits_val 10 ds) mod 2 ^ 64 else digits_val 10 ds) \<and> lo \<le> v \<and> v \<le> hi)"
  by (rule parse_uint_10)

text \<open>
  C34. What \<^verbatim>\<open>printf\<close> prints, \<open>parse_uint\<close> reads back: a number in range printed with \<^verbatim>\<open>%u\<close> is
  recovered in base 10, and printed with \<^verbatim>\<open>0x%x\<close> in bases 0 and 16.
\<close>

theorem parse_uint_reads_back:
  assumes "lo \<le> n" and "n \<le> hi" and "hi \<le> ULONG_MAX"
  shows "parse_uint (show_dec n) 10 lo hi = Inr n \<and> parse_uint (''0x'' @ show_hex n) 0 lo hi = Inr n \<and>
    parse_uint (''0x'' @ show_hex n) 16 lo hi = Inr n"
proof -
  have "parse_uint (''0x'' @ show_hex n) b lo hi = Inr n" if "b = 0 \<or> b = 16" for b
    by (rule parse_hex_gen [OF assms that]) (use show_hex_digits in \<open>simp_all add: digits_val_hex\<close>)
  with parse_dec [OF assms] show ?thesis by blast
qed

theorem parse_uint_reads_back_witness:
  "parse_uint (show_dec 15) 10 0 15 = Inr 15 \<and> parse_uint (''0x'' @ show_hex 15) 0 0 15 = Inr 15 \<and>
    parse_uint (''0x'' @ show_hex 15) 16 0 15 = Inr 15"
  by (rule parse_uint_reads_back) (simp_all add: ULONG_MAX_def)

text \<open>
  Two strings \<^verbatim>\<open>parse.h\<close> does not announce: a negative numeral is accepted when its two's
  complement falls into the range, so an SPI padding of minus 18446744073709551615 means one;
  and in base 0 a leading zero selects octal, so 010 is eight.
\<close>

lemma parse_uint_wraps_and_octal:
  "parse_uint ''-18446744073709551615'' 10 0 15 = Inr 1 \<and> parse_uint ''010'' 0 0 255 = Inr 8"
  by (simp add: parse_uint_def strtoul_def split_base_def digits_val_def digit_val_def is_digit_def is_space_def
      ULONG_MAX_def)

end
