(* ===== verification/C_Getopt.thy ===== *)
theory C_Getopt
  imports Parse_Uint
begin

text \<open>
  \<^verbatim>\<open>getopt\<close> of the C library as the two programs use it: clusters of short options, arguments
  attached or separate, \<^verbatim>\<open>--\<close>, and operands moved behind the options. The whole argument
  vector is read at once into the sequence of results and the operands that remain.
\<close>

datatype opt = Opt char string | BadOpt

text \<open>\<open>spec c\<close>: not an option, an option, or an option with an argument.\<close>

fun getopt_from :: "(char \<Rightarrow> bool option) \<Rightarrow> string \<Rightarrow> string list \<Rightarrow> opt list \<times> string list" where
  "getopt_from spec [] [] = ([], [])"
| "getopt_from spec [] (a # as) =
     (if a = ''--'' then ([], as)
      else if a \<noteq> [] \<and> hd a = CHR ''-'' \<and> tl a \<noteq> [] then getopt_from spec (tl a) as
      else (let (os, ns) = getopt_from spec [] as in (os, a # ns)))"
| "getopt_from spec (c # cs) as =
     (case spec c of
        None \<Rightarrow> (let (os, ns) = getopt_from spec cs as in (BadOpt # os, ns))
      | Some False \<Rightarrow> (let (os, ns) = getopt_from spec cs as in (Opt c [] # os, ns))
      | Some True \<Rightarrow>
          if cs \<noteq> [] then (let (os, ns) = getopt_from spec [] as in (Opt c cs # os, ns))
          else (case as of
                  [] \<Rightarrow> ([BadOpt], [])
                | a # as \<Rightarrow> (let (os, ns) = getopt_from spec [] as in (Opt c a # os, ns))))"

definition getopt :: "(char \<Rightarrow> bool option) \<Rightarrow> string list \<Rightarrow> opt list \<times> string list" where
  "getopt spec args = getopt_from spec [] args"

text \<open>The option string, e.g. \<^verbatim>\<open>"s:t:h"\<close>: a colon marks an option with an argument.\<close>

fun optstring :: "string \<Rightarrow> char \<Rightarrow> bool option" where
  "optstring [] c = None"
| "optstring (x # xs) c =
     (let arg = (xs \<noteq> [] \<and> hd xs = CHR '':'')
      in if x = c \<and> c \<noteq> CHR '':'' then Some arg else optstring xs c)"

lemma getopt_operands:
  "\<forall>a \<in> set as. a = [] \<or> hd a \<noteq> CHR ''-'' \<Longrightarrow> getopt spec as = ([], as)"
  unfolding getopt_def by (induction "as") auto

end
