(* ===== verification/Startup.thy ===== *)
theory Startup
  imports Server C_Getopt
begin

text \<open>
  \<^verbatim>\<open>main\<close> of the daemon up to its loop, and after it: options, the device lock, the DEVICE_ID
  check, the reset line (\<^verbatim>\<open>gpio_open_line_by_name\<close>), the listening socket. The calls to the
  host are the record \<open>'w host\<close>; every early return is a value of \<open>startup_error\<close>. The model's \<open>log_sink\<close> is
  both \<^verbatim>\<open>g.log\<close> and the sink \<^verbatim>\<open>log_open\<close> hands to \<^verbatim>\<open>log.c\<close>: nothing logs between the two.
\<close>

text \<open>
  \<open>ho_fopen\<close>, \<open>ho_open_spi\<close> and \<open>ho_flock\<close> tell whether the call succeeded; \<open>ho_listen\<close> is
  \<^verbatim>\<open>socket\<close>, \<^verbatim>\<open>bind\<close> and \<^verbatim>\<open>listen\<close> on a path. \<open>ho_chip_info\<close> gives a chip's name and number of
  lines, \<open>ho_line_request\<close> the descriptor of a line requested as output (negative: refused).
\<close>

record 'w host =
  ho_fopen :: "string \<Rightarrow> 'w \<Rightarrow> bool \<times> 'w"
  ho_open_spi :: "string \<Rightarrow> 'w \<Rightarrow> bool \<times> 'w"
  ho_flock :: "'w \<Rightarrow> bool \<times> 'w"
  ho_spi_mode :: "'w \<Rightarrow> 'w"
  ho_chip_open :: "nat \<Rightarrow> 'w \<Rightarrow> bool \<times> 'w"
  ho_chip_info :: "nat \<Rightarrow> 'w \<Rightarrow> (string \<times> u32) option \<times> 'w"
  ho_line_info :: "nat \<Rightarrow> nat \<Rightarrow> 'w \<Rightarrow> string option \<times> 'w"
  ho_line_request :: "nat \<Rightarrow> nat \<Rightarrow> 'w \<Rightarrow> int \<times> 'w"
  ho_chip_close :: "nat \<Rightarrow> 'w \<Rightarrow> 'w"
  ho_unlink :: "string \<Rightarrow> 'w \<Rightarrow> 'w"
  ho_listen :: "string \<Rightarrow> 'w \<Rightarrow> bool \<times> 'w"
  ho_strerror :: "'w \<Rightarrow> string"

datatype startup_error = Usage | BadNumber string | NoLogFile | NoSpi | SpiLocked | NoSocket

text \<open>An early return keeps the state, with what was logged on the way.\<close>

type_synonym 'w failure = "startup_error \<times> 'w daemon"

section \<open>The reset line\<close>

text \<open>The scan of one chip's lines stops at the first line of that name.\<close>

fun gpio_scan_lines ::
    "'w host \<Rightarrow> 'w kernel \<Rightarrow> string \<Rightarrow> nat \<Rightarrow> string \<Rightarrow> nat list \<Rightarrow> 'w daemon \<Rightarrow> int \<times> 'w daemon" where
  "gpio_scan_lines H K name n chip [] s = (- 1, s)"
| "gpio_scan_lines H K name n chip (off # offs) s =
     (let (li, w) = ho_line_info H n off (world s); s = s\<lparr>world := w\<rparr>
      in if li \<noteq> Some name then gpio_scan_lines H K name n chip offs s
         else
           (let (fd, w) = ho_line_request H n off (world s); s = s\<lparr>world := w\<rparr>
            in if 0 \<le> fd then
                 (fd, log_always K (''reset GPIO '' @ [CHR 0x27] @ name @ [CHR 0x27] @ '' = '' @ chip @
                        '' line '' @ show_dec off) s)
               else (- 1, s)))"

fun gpio_scan_chips :: "'w host \<Rightarrow> 'w kernel \<Rightarrow> string \<Rightarrow> nat list \<Rightarrow> 'w daemon \<Rightarrow> int \<times> 'w daemon" where
  "gpio_scan_chips H K name [] s = (- 1, s)"
| "gpio_scan_chips H K name (n # ns) s =
     (let (ok, w) = ho_chip_open H n (world s); s = s\<lparr>world := w\<rparr>
      in if \<not> ok then gpio_scan_chips H K name ns s
         else
           (let (ci, w) = ho_chip_info H n (world s); s = s\<lparr>world := w\<rparr>;
                (fd, s) = (case ci of
                             None \<Rightarrow> (- 1, s)
                           | Some (chip, lines) \<Rightarrow> gpio_scan_lines H K name n chip [0..<unat lines] s);
                s = s\<lparr>world := ho_chip_close H n (world s)\<rparr>
            in if fd < 0 then gpio_scan_chips H K name ns s else (fd, s)))"

definition gpio_open_line_by_name :: "'w host \<Rightarrow> 'w kernel \<Rightarrow> string \<Rightarrow> 'w daemon \<Rightarrow> int \<times> 'w daemon" where
  "gpio_open_line_by_name H K name s =
     (let (fd, s) = gpio_scan_chips H K name [0..<64] s
      in (fd, if fd < 0 then
                log_error K (''reset GPIO '' @ [CHR 0x27] @ name @ [CHR 0x27] @ '' not found on any gpiochip'') s
              else s))"

section \<open>Options\<close>

definition INT_MAX :: nat where "INT_MAX = 2 ^ 31 - 1"

text \<open>\<open>has_dev\<close> tells whether \<^verbatim>\<open>g.dev\<close> is set, i.e. not \<^verbatim>\<open>NULL\<close>.\<close>

definition daemon_opt :: "'w host \<Rightarrow> char \<Rightarrow> string \<Rightarrow> bool \<times> 'w daemon \<Rightarrow> 'w failure + bool \<times> 'w daemon" where
  "daemon_opt H c arg st =
     (let (has_dev, s) = st
      in if c = CHR ''d'' then Inr (True, s\<lparr>dev := arg\<rparr>)
         else if c = CHR ''s'' then Inr (has_dev, s\<lparr>sock := arg\<rparr>)
         else if c = CHR ''p'' then
           (case parse_uint arg 10 0 SPI_PAD_MAX of
              Inl e \<Rightarrow> Inl (BadNumber e, s) | Inr v \<Rightarrow> Inr (has_dev, s\<lparr>pad := v\<rparr>))
         else if c = CHR ''f'' then
           (case parse_uint arg 10 1 INT_MAX of
              Inl e \<Rightarrow> Inl (BadNumber e, s) | Inr v \<Rightarrow> Inr (has_dev, s\<lparr>freq := int v\<rparr>))
         else if c = CHR ''r'' then Inr (has_dev, s\<lparr>rst_line := Some arg\<rparr>)
         else if c = CHR ''L'' then
           (if arg = ''-'' then Inr (has_dev, s\<lparr>log_sink := True\<rparr>)
            else (let (ok, w) = ho_fopen H arg (world s); s = s\<lparr>world := w\<rparr>
                  in if ok then Inr (has_dev, s\<lparr>log_sink := True\<rparr>) else Inl (NoLogFile, s)))
         else Inl (Usage, s))"

fun daemon_opts :: "'w host \<Rightarrow> opt list \<Rightarrow> bool \<times> 'w daemon \<Rightarrow> 'w failure + bool \<times> 'w daemon" where
  "daemon_opts H [] st = Inr st"
| "daemon_opts H (BadOpt # os) st = Inl (Usage, snd st)"
| "daemon_opts H (Opt c arg # os) st =
     (case daemon_opt H c arg st of Inl e \<Rightarrow> Inl e | Inr st \<Rightarrow> daemon_opts H os st)"

section \<open>Start-up\<close>

text \<open>\<^verbatim>\<open>%#x\<close> and \<^verbatim>\<open>%#06x\<close>.\<close>

definition px_alt :: "u32 \<Rightarrow> string" where
  "px_alt w = (if w = 0 then ''0'' else ''0x'' @ show_hex (unat w))"

definition px_alt6 :: "u32 \<Rightarrow> string" where
  "px_alt6 w = (if w = 0 then ''000000'' else ''0x'' @ zpad 4 (show_hex (unat w)))"

definition probe_device :: "'w kernel \<Rightarrow> lan80xx_regs \<Rightarrow> 'w daemon \<Rightarrow> 'w daemon" where
  "probe_device K R s =
     (let (r, s) = spi_read_reg K R 0 MMD_GLOBAL (DEVICE_ID_REG R) s
      in case r of
           None \<Rightarrow> log_warn K (''DEVICE_ID read '' @ px_alt 0 @ '' -- PHY not answering?'') s
         | Some i \<Rightarrow>
             if i AND 0xff00 \<noteq> 0x8000 then log_warn K (''DEVICE_ID read '' @ px_alt i @ '' -- PHY not answering?'') s
             else log_always K (dev s @ '': LAN80xx DEVICE_ID '' @ px_alt6 i) s)"

definition SUN_PATH_MAX :: nat where "SUN_PATH_MAX = 108"

definition setup_reset :: "'w host \<Rightarrow> 'w kernel \<Rightarrow> 'w daemon \<Rightarrow> 'w daemon" where
  "setup_reset H K s =
     (case rst_line s of
        None \<Rightarrow> s
      | Some l \<Rightarrow> (let (fd, s) = gpio_open_line_by_name H K l s in s\<lparr>rst_fd := fd\<rparr>))"

definition enter_loop :: "'w kernel \<Rightarrow> 'w daemon \<Rightarrow> 'w daemon" where
  "enter_loop K s =
     (let s = chain_pool s
      in log_always K (''lan80xx-spid: '' @ dev s @ '' @'' @ show_int (freq s) @ '' Hz pad '' @
           show_dec (pad s) @ '', socket '' @ sock s) s)"

definition daemon_start ::
    "'w host \<Rightarrow> 'w kernel \<Rightarrow> lan80xx_regs \<Rightarrow> 'w daemon \<Rightarrow> 'w failure + 'w daemon" where
  "daemon_start H K R s =
     (let (ok, w) = ho_open_spi H (dev s) (world s); s = s\<lparr>world := w\<rparr>
      in if \<not> ok then Inl (NoSpi, log_error K (dev s @ '': '' @ ho_strerror H (world s)) s)
         else
           (let (ok, w) = ho_flock H (world s); s = s\<lparr>world := w\<rparr>
            in if \<not> ok then Inl (SpiLocked, log_error K (dev s @ '': already locked (another owner?)'') s)
               else
                 (let s = s\<lparr>world := ho_spi_mode H (world s)\<rparr>;
                      s = probe_device K R s;
                      s = setup_reset H K s;
                      s = s\<lparr>world := ho_unlink H (sock s) (world s)\<rparr>;
                      (ok, w) = ho_listen H (take (SUN_PATH_MAX - 1) (sock s)) (world s);
                      s = s\<lparr>world := w\<rparr>
                  in if \<not> ok then Inl (NoSocket, log_error K (sock s @ '': '' @ ho_strerror H (world s)) s)
                     else Inr (enter_loop K s))))"

definition SPIPROXY_SOCK :: string where
  "SPIPROXY_SOCK = ''/run/lan80xx-spid.sock''"

definition daemon_main ::
    "'w host \<Rightarrow> 'w kernel \<Rightarrow> lan80xx_regs \<Rightarrow> string list \<Rightarrow> 'w \<Rightarrow> 'w failure + 'w daemon" where
  "daemon_main H K R args w =
     (let s = (zero_daemon w)\<lparr>sock := SPIPROXY_SOCK, pad := 1, freq := 5000000, rst_fd := - 1\<rparr>
      in case daemon_opts H (fst (getopt (optstring ''d:s:p:f:r:L:h'') args)) (False, s) of
           Inl e \<Rightarrow> Inl e
         | Inr (has_dev, s) \<Rightarrow>
             (let s = s\<lparr>lctx_tag := ''''\<rparr>
              in if \<not> has_dev then Inl (Usage, s) else daemon_start H K R s))"

definition daemon_exit :: "'w host \<Rightarrow> 'w kernel \<Rightarrow> 'w daemon \<Rightarrow> 'w daemon" where
  "daemon_exit H K s =
     log_always K ''lan80xx-spid: exit'' (s\<lparr>world := ho_unlink H (sock s) (world s)\<rparr>)"

section \<open>The state start-up leaves behind\<close>

text \<open>What holds of the state throughout \<^verbatim>\<open>main\<close>, before the pool is chained.\<close>

definition ready :: "'w daemon \<Rightarrow> bool" where
  "ready s \<longleftrightarrow> blank s \<and> (\<forall>i. body_len i s = 0) \<and> claim_ncleanup s = 0 \<and> pad s \<le> SPI_PAD_MAX \<and> int32 (freq s) \<and>
     cl s = (\<lambda>i. zero_client)"

lemma ready_upd [simp]:
  "ready (s\<lparr>world := w\<rparr>) = ready s" "ready (s\<lparr>dev := d\<rparr>) = ready s" "ready (s\<lparr>sock := d\<rparr>) = ready s"
  "ready (s\<lparr>rst_line := l\<rparr>) = ready s" "ready (s\<lparr>rst_fd := fd\<rparr>) = ready s" "ready (s\<lparr>log_sink := b\<rparr>) = ready s"
  "ready (s\<lparr>lctx_tag := d\<rparr>) = ready s"
  by (simp_all add: ready_def blank_def body_len_def)

lemma ready_pad: "ready s \<Longrightarrow> n \<le> SPI_PAD_MAX \<Longrightarrow> ready (s\<lparr>pad := n\<rparr>)"
  and ready_freq: "ready s \<Longrightarrow> int32 f \<Longrightarrow> ready (s\<lparr>freq := f\<rparr>)"
  by (simp_all add: ready_def blank_def body_len_def)

lemma ready_io: "io_frame s s' \<Longrightarrow> ready s' = ready s"
  by (simp add: ready_def blank_def body_len_def io_frame_iff)

lemma ready_logs [simp]:
  "ready (log_msg K p t s) = ready s"
  by (rule ready_io) simp

lemma daemon_opt_ready:
  assumes "daemon_opt H c arg (d, s) = Inr (d', s')" and "ready s"
  shows "ready s'"
proof -
  have "int32 (int v)" if "parse_uint arg 10 1 INT_MAX = Inr v" for v
    using parse_uint_range [OF that] by (simp add: int32_def INT_MAX_def)
  moreover have "v \<le> SPI_PAD_MAX" if "parse_uint arg 10 0 SPI_PAD_MAX = Inr v" for v
    using parse_uint_range [OF that] by simp
  ultimately show ?thesis
    using assms
    by (auto simp: daemon_opt_def Let_def intro: ready_pad ready_freq split: if_splits sum.splits prod.splits)
qed

lemma daemon_opts_ready: "daemon_opts H os st = Inr st' \<Longrightarrow> ready (snd st) \<Longrightarrow> ready (snd st')"
proof (induction H os st rule: daemon_opts.induct)
  case (3 H c arg os st)
  then show ?case
    using daemon_opt_ready [of H c arg "fst st" "snd st"] by (auto split: sum.splits)
qed auto

lemma gpio_scan_lines_ready:
  "gpio_scan_lines H K name n chip offs s = (fd, s') \<Longrightarrow> ready s' = ready s"
  by (induction offs arbitrary: s) (auto simp: Let_def split: prod.splits if_splits)

lemma gpio_scan_chips_ready:
  "gpio_scan_chips H K name ns s = (fd, s') \<Longrightarrow> ready s' = ready s"
proof (induction ns arbitrary: s)
  case (Cons n ns)
  then show ?case
    by (auto simp: Let_def gpio_scan_lines_ready split: prod.splits if_splits option.splits)
qed simp

lemma gpio_open_ready: "gpio_open_line_by_name H K name s = (fd, s') \<Longrightarrow> ready s' = ready s"
  by (auto simp: gpio_open_line_by_name_def gpio_scan_chips_ready split: prod.splits if_splits)

lemma probe_ready [simp]: "ready (probe_device K R s) = ready s"
proof -
  obtain r s1 where r: "spi_read_reg K R 0 MMD_GLOBAL (DEVICE_ID_REG R) s = (r, s1)" by (rule prod.exhaust)
  then have "io_frame s s1" using hw.read_reg_io [of K R 0 MMD_GLOBAL "DEVICE_ID_REG R" s] by simp
  then have "ready s1 = ready s" by (rule ready_io)
  then show ?thesis by (simp add: probe_device_def r split: option.splits)
qed

lemma ready_inv:
  assumes "ready s" and "length (dev s) + length (rst_text s) \<le> 1800"
  shows "server_inv (chain_pool s)"
proof (rule chain_pool_inv)
  show "blank s" using assms(1) by (simp add: ready_def)
  show "daemon_ok s"
    using assms by (simp add: ready_def daemon_ok_def stats_ok_def zero_client_def int32_def const_defs)
qed

lemma setup_reset_ready [simp]: "ready (setup_reset H K s) = ready s"
  by (auto simp: setup_reset_def gpio_open_ready split: option.splits prod.splits)

lemma enter_loop_inv:
  assumes "ready s" and "length (dev (enter_loop K s)) + length (rst_text (enter_loop K s)) \<le> 1800"
  shows "server_inv (enter_loop K s)"
proof -
  have io: "io_frame (chain_pool s) (enter_loop K s)" by (simp add: enter_loop_def Let_def)
  then have "rst_text (enter_loop K s) = rst_text s" "dev (enter_loop K s) = dev s"
    by (simp_all add: io_frame_iff chain_pool_def rst_text_def)
  with assms(2) have "server_inv (chain_pool s)" by (intro ready_inv [OF assms(1)]) simp
  then show ?thesis using inv_io [OF _ io] by simp
qed

lemma daemon_start_inv:
  assumes "daemon_start H K R s = Inr s'" and "ready s" and "length (dev s') + length (rst_text s') \<le> 1800"
  shows "server_inv s'"
  using assms by (auto simp: daemon_start_def Let_def intro!: enter_loop_inv split: prod.splits if_splits)

lemma daemon_main_inv:
  assumes "daemon_main H K R args w = Inr s" and "length (dev s) + length (rst_text s) \<le> 1800"
  shows "server_inv s"
proof -
  have r: "ready ((zero_daemon w)\<lparr>sock := SPIPROXY_SOCK, pad := 1, freq := 5000000, rst_fd := - 1\<rparr>)"
    by (simp add: ready_def blank_def zero_daemon_def body_len_def bad_hdr_def int32_def const_defs)
  obtain st where st: "daemon_opts H (fst (getopt (optstring ''d:s:p:f:r:L:h'') args))
      (False, (zero_daemon w)\<lparr>sock := SPIPROXY_SOCK, pad := 1, freq := 5000000, rst_fd := - 1\<rparr>) = Inr st"
    and s: "daemon_start H K R ((snd st)\<lparr>lctx_tag := ''''\<rparr>) = Inr s"
    using assms(1) by (auto simp: daemon_main_def Let_def split: sum.splits prod.splits if_splits)
  have "ready (snd st)" using daemon_opts_ready [OF st] r by (simp only: snd_conv)
  then show ?thesis by (intro daemon_start_inv [OF s _ assms(2)]) simp
qed

section \<open>Finding the reset line\<close>

text \<open>
  The reference: chips numbered below 64 in order, on each the first line of the name, and the
  first of these that the kernel grants.
\<close>

definition chip_line :: "(nat \<Rightarrow> (string \<times> string list) option) \<Rightarrow> string \<Rightarrow> nat \<Rightarrow> nat option" where
  "chip_line chips name n = (case chips n of None \<Rightarrow> None | Some (c, ls) \<Rightarrow> find (\<lambda>i. ls ! i = name) [0..<length ls])"

definition granted :: "(nat \<Rightarrow> (string \<times> string list) option) \<Rightarrow> (nat \<Rightarrow> nat \<Rightarrow> int) \<Rightarrow> string \<Rightarrow> nat \<Rightarrow> int" where
  "granted chips req name n = (case chip_line chips name n of None \<Rightarrow> - 1 | Some i \<Rightarrow> if 0 \<le> req n i then req n i else - 1)"

text \<open>A host whose chips, line names and answers to requests do not change.\<close>

definition static_gpio ::
    "(nat \<Rightarrow> (string \<times> string list) option) \<Rightarrow> (nat \<Rightarrow> nat \<Rightarrow> int) \<Rightarrow> 'w host \<Rightarrow> bool" where
  "static_gpio chips req H \<longleftrightarrow>
     (\<forall>n w. fst (ho_chip_open H n w) = (chips n \<noteq> None)) \<and>
     (\<forall>n w c ls i. chips n = Some (c, ls) \<longrightarrow> length ls < 2 ^ 32 \<and> fst (ho_chip_info H n w) = Some (c, of_nat (length ls)) \<and> (i < length ls \<longrightarrow> fst (ho_line_info H n i w) = Some (ls ! i))) \<and>
     (\<forall>n i w. fst (ho_line_request H n i w) = req n i)"

lemma scan_lines_static:
  assumes "static_gpio chips req H" and "chips n = Some (c, ls)" and "\<forall>i \<in> set offs. i < length ls"
  shows "fst (gpio_scan_lines H K name n chip offs s) =
    (case find (\<lambda>i. ls ! i = name) offs of None \<Rightarrow> - 1 | Some i \<Rightarrow> if 0 \<le> req n i then req n i else - 1)"
  using assms(3)
proof (induction offs arbitrary: s)
  case (Cons i offs)
  have "fst (ho_line_info H n i w) = Some (ls ! i)" "fst (ho_line_request H n i w) = req n i" for w
    using assms(1,2) Cons.prems by (auto simp: static_gpio_def)
  with Cons show ?case by (simp add: Let_def split_beta)
qed simp

lemma scan_chips_static:
  assumes "static_gpio chips req H"
  shows "fst (gpio_scan_chips H K name ns s) =
    (case find (\<lambda>n. 0 \<le> granted chips req name n) ns of None \<Rightarrow> - 1 | Some n \<Rightarrow> granted chips req name n)"
proof (induction ns arbitrary: s)
  case (Cons n ns)
  show ?case
  proof (cases "chips n")
    case None
    then have "fst (ho_chip_open H n w) = False" for w using assms by (simp add: static_gpio_def)
    moreover have "\<not> 0 \<le> granted chips req name n" using None by (simp add: granted_def chip_line_def)
    ultimately show ?thesis using Cons by (simp add: Let_def split_beta)
  next
    case (Some cl)
    obtain c ls where cl: "cl = (c, ls)" by (rule prod.exhaust)
    have st: "fst (ho_chip_open H n w) = True" "fst (ho_chip_info H n w) = Some (c, of_nat (length ls))" for w
      using assms Some cl by (simp_all add: static_gpio_def)
    have "unat (of_nat (length ls) :: u32) = length ls"
      using assms Some cl by (simp add: static_gpio_def unat_of_nat)
    then have "fst (gpio_scan_lines H K name n c [0..<unat (of_nat (length ls) :: u32)] s1) = granted chips req name n" for s1
      using scan_lines_static [OF assms, of n c ls "[0..<length ls]"] Some cl
      by (auto simp: granted_def chip_line_def)
    with st Cons.IH show ?thesis by (simp add: Let_def split_beta)
  qed
qed simp


end
