(* ===== verification/Fuzz_Harness.thy ===== *)
theory Fuzz_Harness
  imports Server
begin

text \<open>
  The libFuzzer harnesses of the daemon (\<^verbatim>\<open>fuzz_common.h\<close>, \<^verbatim>\<open>fuzz_msg.c\<close>, \<^verbatim>\<open>fuzz_frame.c\<close>)
  on the hardware-free build. Their two clients live on the stack of the harness, outside
  \<^verbatim>\<open>g.cl\<close>; here they are the two client records after the sixteen of \<^verbatim>\<open>g.cl\<close>. Shown: no input
  trips the oracle \<^verbatim>\<open>fuzz_check_invariants\<close>, in any sequence of inputs.
\<close>

section \<open>fuzz\_common.h\<close>

definition FUZZ_NCLIENTS :: nat where [const_defs]: "FUZZ_NCLIENTS = 2"

definition fuzz_cl :: "nat \<Rightarrow> nat" where
  "fuzz_cl i = MAX_CLIENTS + i"

definition fuzz_initialize :: "'w daemon \<Rightarrow> 'w daemon" where
  "fuzz_initialize s = s\<lparr>freq := 5000000, rst_fd := - 1, log_sink := False, lctx_tag := ''''\<rparr>"

definition fuzz_reset :: "'w daemon \<Rightarrow> 'w daemon" where
  "fuzz_reset s =
     chain_pool (s\<lparr>claim_owner := None, claim_ncleanup := 0, claim_deadline := 0, mb_inflight := False,
       ring_w := 0, rd_w := 0, n_queued := 0,
       page_owner := (\<lambda>i j. \<lparr>pg_cid = 0, pg_comm = ''''\<rparr>),
       cor_last := (\<lambda>i. \<lparr>co_cid = 0, co_comm = '''', co_ts = 0\<rparr>),
       rd_ring := (\<lambda>i. \<lparr>rd_slice = 0, rd_mmd = 0, rd_reg = 0, rd_cid = 0, rd_comm = '''', rd_ts = 0\<rparr>),
       pool := (pool s)(MAX_QITEMS - 1 := (pool s (MAX_QITEMS - 1))\<lparr>q_next := None\<rparr>),
       qh := (\<lambda>q. if q < 3 then None else qh s q), qt := (\<lambda>q. if q < 3 then None else qt s q)\<rparr>)"

definition fuzz_client :: "nat \<Rightarrow> client" where
  "fuzz_client i = zero_client\<lparr>c_used := True, c_id := of_nat (i + 1), c_fd := - 1\<rparr>"

definition fuzz_clients :: "'w daemon \<Rightarrow> 'w daemon" where
  "fuzz_clients s = s\<lparr>cl := (cl s)(fuzz_cl 0 := fuzz_client 0, fuzz_cl 1 := fuzz_client 1)\<rparr>"

function count_from :: "'w daemon \<Rightarrow> nat option \<Rightarrow> nat \<Rightarrow> nat" where
  "count_from s it n =
     (case it of
        None \<Rightarrow> n
      | Some i \<Rightarrow> if n \<le> MAX_QITEMS then count_from s (q_next (pool s i)) (Suc n) else n)"
  by pat_completeness auto
termination
  by (relation "measure (\<lambda>(s, it, n). Suc MAX_QITEMS - n)") auto

declare count_from.simps [simp del]

text \<open>\<^term>\<open>False\<close>: the harness aborts.\<close>

definition fuzz_check_invariants :: "'w daemon \<Rightarrow> bool" where
  "fuzz_check_invariants s \<longleftrightarrow>
     (let n = count_from s (freel s) 0;
          n = count_from s (qh s 0) n;
          n = count_from s (qh s 1) n;
          n = count_from s (qh s 2) n
      in \<not> (n \<noteq> MAX_QITEMS \<or> n_queued s \<noteq> 0 \<or> mb_inflight s))"

text \<open>The end of both harnesses: run the scheduler, drop the clients, consult the oracle.\<close>

definition fuzz_finish ::
    "nat \<Rightarrow> 'w sockets \<Rightarrow> 'w build \<Rightarrow> 'w daemon \<Rightarrow> (bool \<times> 'w daemon) fueled option" where
  "fuzz_finish n S B s =
     do {
       r \<leftarrow> drain_queues n B (2 * MAX_QITEMS) s;
       case r of
         Starved \<Rightarrow> Some Starved
       | Ran s \<Rightarrow> do {
           s \<leftarrow> client_drop S B (fuzz_cl 0) s;
           s \<leftarrow> client_drop S B (fuzz_cl 1) s;
           Some (Ran (fuzz_check_invariants s, s))
         }
     }"

section \<open>fuzz\_msg.c\<close>

function fuzz_msg_loop :: "'w build \<Rightarrow> u8 list \<Rightarrow> nat \<Rightarrow> 'w daemon \<Rightarrow> 'w daemon option" where
  "fuzz_msg_loop B data off s =
     (if off + 2 \<le> length data then
        (let framing = un_le16 (data ! off) (data ! (off + 1));
             who = unat (drop_bit 15 framing);
             mlen = min (unat (framing AND 0x7FFF)) (length data - (off + 2))
         in if mlen < sizeof_hdr then Some s
            else do {
              let mlen = min mlen (sizeof_hdr + SPIPROXY_MSG_MAX);
              let h = (dec_hdr (take sizeof_hdr (drop (off + 2) data)))\<lparr>h_len := of_nat (mlen - sizeof_hdr)\<rparr>;
              s \<leftarrow> enqueue B (fuzz_cl (who mod FUZZ_NCLIENTS)) h (drop (off + 2 + sizeof_hdr) data) s;
              fuzz_msg_loop B data (off + 2 + mlen) s
            })
      else Some s)"
  by pat_completeness auto
termination
  by (relation "measure (\<lambda>(B, data, off, s). length data - off)") auto

declare fuzz_msg_loop.simps [simp del]

definition fuzz_feed :: "u8 list \<Rightarrow> 'k fuzz_world daemon \<Rightarrow> 'k fuzz_world daemon" where
  "fuzz_feed feed s = s\<lparr>world := (world s)\<lparr>g_fuzz_spi := feed, g_fuzz_spi_pos := 0\<rparr>\<rparr>"

definition fuzz_msg ::
    "nat \<Rightarrow> 'k fuzz_world sockets \<Rightarrow> 'k fuzz_world build \<Rightarrow> u8 list \<Rightarrow> 'k fuzz_world daemon \<Rightarrow>
     (bool \<times> 'k fuzz_world daemon) fueled option" where
  "fuzz_msg n S B data s =
     (if length data < 2 then Some (Ran (True, s))
      else do {
        let feed_len = min (unat (un_le16 (data ! 0) (data ! 1))) (length data - 2);
        let s = fuzz_feed (take feed_len (drop 2 data)) s;
        let s = fuzz_clients (fuzz_reset s);
        s \<leftarrow> fuzz_msg_loop B data (2 + feed_len) s;
        fuzz_finish n S B s
      })"

section \<open>fuzz\_frame.c\<close>

function fuzz_frame_loop :: "'w build \<Rightarrow> u8 list \<Rightarrow> nat \<Rightarrow> nat \<Rightarrow> 'w daemon \<Rightarrow> 'w daemon option" where
  "fuzz_frame_loop B data off k s =
     (if off + 2 \<le> length data then
        (let dlen = min (unat (un_le16 (data ! off) (data ! (off + 1)))) (length data - (off + 2));
             n = min dlen (sizeof_hdr + SPIPROXY_MSG_MAX)
         in do {
              s \<leftarrow> client_frame B (fuzz_cl (k mod FUZZ_NCLIENTS)) (take n (drop (off + 2) data)) s;
              fuzz_frame_loop B data (off + 2 + dlen) (Suc k) s
            })
      else Some s)"
  by pat_completeness auto
termination
  by (relation "measure (\<lambda>(B, data, off, k, s). length data - off)") auto

declare fuzz_frame_loop.simps [simp del]

definition fuzz_frame ::
    "nat \<Rightarrow> 'k fuzz_world sockets \<Rightarrow> 'k fuzz_world build \<Rightarrow> u8 list \<Rightarrow> 'k fuzz_world daemon \<Rightarrow>
     (bool \<times> 'k fuzz_world daemon) fueled option" where
  "fuzz_frame n S B data s =
     do {
       let s = fuzz_clients (fuzz_reset (fuzz_feed [] s));
       s \<leftarrow> fuzz_frame_loop B data 0 0 s;
       fuzz_finish n S B s
     }"

section \<open>The oracle is never tripped\<close>

text \<open>What holds between two inputs.\<close>

definition harness_ok :: "'w daemon \<Rightarrow> bool" where
  "harness_ok s \<longleftrightarrow> rst_fd s < 0 \<and> (\<forall>i. body_len i s \<le> SPIPROXY_MSG_MAX) \<and> stats_ok s"

definition fuzz_set :: "nat set" where
  "fuzz_set = fuzz_cl ` {..<FUZZ_NCLIENTS}"

lemma fuzz_cl_mod: "fuzz_cl (k mod FUZZ_NCLIENTS) \<in> fuzz_set"
  by (simp add: fuzz_set_def FUZZ_NCLIENTS_def)

lemma fuzz_set_dropped: "fuzz_set - {fuzz_cl 0} - {fuzz_cl 1} = {}"
  by (auto simp: fuzz_set_def FUZZ_NCLIENTS_def dest!: less_2_cases)

lemma harness_start:
  assumes "harness_ok s"
  shows "owned fuzz_set (fuzz_clients (fuzz_reset s)) \<and> conf_of (fuzz_clients (fuzz_reset s)) = conf_of s"
proof -
  have "owned fuzz_set (fuzz_reset s)"
    unfolding fuzz_reset_def
    by (rule chain_pool_owned)
      (use assms in \<open>auto simp: blank_def daemon_ok_def harness_ok_def body_len_def stats_ok_def rst_text_def\<close>)
  then obtain F Q where s: "sched_ok (fuzz_reset s) F Q []"
    "\<forall>i \<in> set_mset (qset Q). q_c (pool (fuzz_reset s) i) \<in> fuzz_set" "daemon_ok (fuzz_reset s)"
    "\<not> mb_inflight (fuzz_reset s)" "\<forall>c. claim_owner (fuzz_reset s) = Some c \<longrightarrow> c \<in> fuzz_set" by (rule ownedE)
  let ?s = "fuzz_clients (fuzz_reset s)"
  have "sched_ok ?s F Q [] = sched_ok (fuzz_reset s) F Q []"
    by (rule sched_ok_cong) (simp add: link_of_def fuzz_clients_def)
  moreover have "daemon_ok ?s = daemon_ok (fuzz_reset s)"
    by (auto simp: daemon_ok_def body_len_def stats_ok_def rst_text_def fuzz_clients_def fuzz_cl_def)
  moreover have "pool ?s = pool (fuzz_reset s)" "mb_inflight ?s = mb_inflight (fuzz_reset s)"
    "claim_owner ?s = claim_owner (fuzz_reset s)" by (simp_all add: fuzz_clients_def)
  moreover have "conf_of ?s = conf_of s"
    by (simp add: conf_of_def fuzz_clients_def fuzz_reset_def chain_pool_def)
  ultimately show ?thesis using s unfolding owned_def by auto
qed

lemma enqueue_take:
  "unat (h_len h) \<le> length body \<Longrightarrow> enqueue B c h (take (unat (h_len h)) body) s = enqueue B c h body s"
  by (simp add: enqueue_def min_def cong: option.case_cong)

lemma owned_msg_loop:
  assumes "owned fuzz_set s"
  shows "holds (fuzz_msg_loop B data off s) (\<lambda>s'. owned fuzz_set s' \<and> conf_of s' = conf_of s)"
  using assms
proof (induction "length data - off" arbitrary: off s rule: less_induct)
  case less
  let ?f = "un_le16 (data ! off) (data ! (off + 1))"
  let ?m = "min (unat (?f AND 0x7FFF)) (length data - (off + 2))"
  let ?n = "min ?m (sizeof_hdr + SPIPROXY_MSG_MAX)"
  let ?h = "(dec_hdr (take sizeof_hdr (drop (off + 2) data)))\<lparr>h_len := of_nat (?n - sizeof_hdr)\<rparr>"
  let ?b = "drop (off + 2 + sizeof_hdr) data"
  let ?c = "fuzz_cl (unat (drop_bit 15 ?f) mod FUZZ_NCLIENTS)"
  show ?case
  proof (cases "off + 2 \<le> length data \<and> \<not> ?m < sizeof_hdr")
    case False
    with less.prems show ?thesis by (subst fuzz_msg_loop.simps) (auto simp: Let_def wp_simps)
  next
    case True
    have len: "unat (h_len ?h) = ?n - sizeof_hdr" by (simp add: unat_of_nat const_defs)
    have le: "unat (h_len ?h) \<le> length ?b" "?n - sizeof_hdr \<le> SPIPROXY_MSG_MAX" unfolding len using True by simp_all
    have "length (take (unat (h_len ?h)) ?b) = ?n - sizeof_hdr" using le(1) unfolding len by (simp add: min_def)
    then have "holds (enqueue B ?c ?h (take (unat (h_len ?h)) ?b) s)
        (\<lambda>s'. owned fuzz_set s' \<and> slots_of s' = slots_of s \<and> conf_of s' = conf_of s)"
      by (intro owned_enqueue [OF less.prems fuzz_cl_mod]) (simp_all only: len le(2))
    then have enq: "holds (enqueue B ?c ?h ?b s) (\<lambda>s'. owned fuzz_set s' \<and> slots_of s' = slots_of s \<and> conf_of s' = conf_of s)"
      unfolding enqueue_take [OF le(1)] .
    have "holds (fuzz_msg_loop B data (off + 2 + d) s1) (\<lambda>s'. owned fuzz_set s' \<and> conf_of s' = conf_of s)"
      if "owned fuzz_set s1" "conf_of s1 = conf_of s" for s1 d
      using less.hyps [of "off + 2 + d" s1] that conjunct1 [OF True] by simp
    then have "holds (do { s \<leftarrow> enqueue B ?c ?h ?b s; fuzz_msg_loop B data (off + 2 + ?n) s })
        (\<lambda>s'. owned fuzz_set s' \<and> conf_of s' = conf_of s)"
      unfolding holds_bind by (intro holds_mono [OF enq]) blast
    then show ?thesis using True by (subst fuzz_msg_loop.simps) (simp only: Let_def if_True if_False simp_thms)
  qed
qed

lemma owned_frame_loop:
  assumes "owned fuzz_set s"
  shows "holds (fuzz_frame_loop B data off k s) (\<lambda>s'. owned fuzz_set s' \<and> conf_of s' = conf_of s)"
  using assms
proof (induction "length data - off" arbitrary: off k s rule: less_induct)
  case less
  have frame: "holds (client_frame B (fuzz_cl (k mod FUZZ_NCLIENTS)) (take (min d (sizeof_hdr + SPIPROXY_MSG_MAX)) xs) s)
      (\<lambda>s'. owned fuzz_set s' \<and> slots_of s' = slots_of s \<and> conf_of s' = conf_of s)" for d xs
    by (rule owned_client_frame [OF less.prems fuzz_cl_mod]) simp
  have "holds (fuzz_frame_loop B data (off + 2 + d) (Suc k) s1) (\<lambda>s'. owned fuzz_set s' \<and> conf_of s' = conf_of s)"
    if "off + 2 \<le> length data" "owned fuzz_set s1" "conf_of s1 = conf_of s" for s1 d
    using less.hyps [of "off + 2 + d" s1] that by simp
  then show ?case
    using less.prems unfolding fuzz_frame_loop.simps [of B data off]
    by (simp add: Let_def wp_simps del: add_2_eq_Suc') (auto intro!: holds_mono [OF frame])
qed

lemma count_path:
  "path (nexts s) it xs None \<Longrightarrow> n + length xs \<le> MAX_QITEMS \<Longrightarrow> count_from s it n = n + length xs"
  by (induction xs arbitrary: it n) (auto simp: count_from.simps)

lemma owned_none_check:
  assumes "owned {} s"
  shows "fuzz_check_invariants s"
proof -
  from assms obtain F Q where q: "sched_ok s F Q []" "set_mset (qset Q) = {}" and mb: "\<not> mb_inflight s"
    by (auto simp: owned_def)
  then have e: "Q 0 = []" "Q 1 = []" "Q 2 = []" by (simp_all add: qset_def)
  have "length F = MAX_QITEMS" using sched_ok_count [OF q(1)] e by simp
  moreover have "path (nexts s) (freel s) F None" "n_queued s = 0"
    "path (nexts s) (qh s 0) [] None" "path (nexts s) (qh s 1) [] None" "path (nexts s) (qh s 2) [] None"
    using q(1) e by (auto simp: sched_ok_def links_def chained_def less_3)
  ultimately show ?thesis
    using mb count_path [of s "freel s" F 0]
    by (simp add: fuzz_check_invariants_def Let_def count_from.simps [of s None])
qed

lemma fuzz_finish_ok:
  assumes "owned fuzz_set s" and "rst_fd s < 0" and "2 * MAX_QITEMS + 7 \<le> n"
  shows "\<exists>s'. fuzz_finish n S (fz_build K R) s = Some (Ran (True, s')) \<and> harness_ok s'"
proof -
  obtain F Q where q: "sched_ok s F Q []" "daemon_ok s" "\<not> mb_inflight s" using assms(1) by (rule ownedE)
  from drain_returns [OF q assms(2,3)] obtain s1 where
    s1: "drain_queues n (fz_build K R) (2 * MAX_QITEMS) s = Some (Ran s1)" "serves [] [] s s1" "\<not> mb_inflight s1" by blast
  from owned_serves [OF assms(1) s1(2,3)] have o1: "owned fuzz_set s1" .
  obtain s2 where s2: "client_drop S (fz_build K R) (fuzz_cl 0) s1 = Some s2" "owned (fuzz_set - {fuzz_cl 0}) s2"
    "dropped (fuzz_cl 0) s1 s2"
    using fz.owned_client_drop [OF o1, of S "fuzz_kernel K" R "fuzz_cl 0"] by (auto simp: holds_iff)
  obtain s3 where s3: "client_drop S (fz_build K R) (fuzz_cl 1) s2 = Some s3"
    "owned (fuzz_set - {fuzz_cl 0} - {fuzz_cl 1}) s3" "dropped (fuzz_cl 1) s2 s3"
    using fz.owned_client_drop [OF s2(2), of S "fuzz_kernel K" R "fuzz_cl 1"] by (auto simp: holds_iff)
  have "owned {} s3" using s3(2) unfolding fuzz_set_dropped .
  then have "fuzz_check_invariants s3" "daemon_ok s3" by (simp_all add: owned_none_check owned_def)
  moreover have "conf_of s3 = conf_of s" using s1(2) s2(3) s3(3) by (simp add: serves_def stable_def dropped_def)
  ultimately show ?thesis
    using s1(1) s2(1) s3(1) assms(2) by (simp add: fuzz_finish_def harness_ok_def daemon_ok_def conf_of_def)
qed

lemma harness_feed [simp]: "harness_ok (fuzz_feed f s) = harness_ok s" "conf_of (fuzz_feed f s) = conf_of s"
  by (simp_all add: harness_ok_def fuzz_feed_def body_len_def stats_ok_def rst_text_def conf_of_def)

lemma rst_fd_conf: "conf_of s' = conf_of s \<Longrightarrow> rst_fd s' = rst_fd s"
  by (simp add: conf_of_def)

lemma fuzz_msg_ok:
  assumes "harness_ok s" and "2 * MAX_QITEMS + 7 \<le> n"
  shows "\<exists>s'. fuzz_msg n S (fz_build K R) data s = Some (Ran (True, s')) \<and> harness_ok s'"
proof (cases "length data < 2")
  case True
  then show ?thesis using assms by (simp add: fuzz_msg_def)
next
  case False
  let ?l = "min (unat (un_le16 (data ! 0) (data ! 1))) (length data - 2)"
  let ?f = "fuzz_feed (take ?l (drop 2 data)) s"
  have h: "harness_ok ?f" using assms(1) by simp
  from harness_start [OF h] have o: "owned fuzz_set (fuzz_clients (fuzz_reset ?f))"
    and c: "conf_of (fuzz_clients (fuzz_reset ?f)) = conf_of s" by simp_all
  obtain s1 where s1: "fuzz_msg_loop (fz_build K R) data (2 + ?l) (fuzz_clients (fuzz_reset ?f)) = Some s1"
    "owned fuzz_set s1" "conf_of s1 = conf_of s"
    using owned_msg_loop [OF o, of "fz_build K R" data "2 + ?l"] c by (auto simp: holds_iff)
  have "rst_fd s1 < 0" using rst_fd_conf [OF s1(3)] assms(1) by (simp add: harness_ok_def)
  from fuzz_finish_ok [OF s1(2) this assms(2)] show ?thesis
    using False s1(1) by (simp add: fuzz_msg_def Let_def)
qed

lemma fuzz_frame_ok:
  assumes "harness_ok s" and "2 * MAX_QITEMS + 7 \<le> n"
  shows "\<exists>s'. fuzz_frame n S (fz_build K R) data s = Some (Ran (True, s')) \<and> harness_ok s'"
proof -
  let ?f = "fuzz_feed [] s"
  have h: "harness_ok ?f" using assms(1) by simp
  from harness_start [OF h] have o: "owned fuzz_set (fuzz_clients (fuzz_reset ?f))"
    and c: "conf_of (fuzz_clients (fuzz_reset ?f)) = conf_of s" by simp_all
  obtain s1 where s1: "fuzz_frame_loop (fz_build K R) data 0 0 (fuzz_clients (fuzz_reset ?f)) = Some s1"
    "owned fuzz_set s1" "conf_of s1 = conf_of s"
    using owned_frame_loop [OF o, of "fz_build K R" data 0 0] c by (auto simp: holds_iff)
  have "rst_fd s1 < 0" using rst_fd_conf [OF s1(3)] assms(1) by (simp add: harness_ok_def)
  from fuzz_finish_ok [OF s1(2) this assms(2)] show ?thesis
    using s1(1) by (simp add: fuzz_frame_def Let_def)
qed

section \<open>Campaigns\<close>

text \<open>
  A campaign runs the target on one input after the other in the same process: the static state
  carries over. The verdict is whether every check of the invariants passed.
\<close>

fun campaign ::
    "(u8 list \<Rightarrow> 's \<Rightarrow> (bool \<times> 's) fueled option) \<Rightarrow> u8 list list \<Rightarrow> 's \<Rightarrow> (bool \<times> 's) fueled option" where
  "campaign f [] s = Some (Ran (True, s))"
| "campaign f (x # xs) s =
     do {
       r \<leftarrow> f x s;
       case r of
         Starved \<Rightarrow> Some Starved
       | Ran (ok, s) \<Rightarrow> if ok then campaign f xs s else Some (Ran (False, s))
     }"

lemma campaign_ok:
  assumes "\<And>x s. I s \<Longrightarrow> \<exists>s'. f x s = Some (Ran (True, s')) \<and> I s'" and "I s"
  shows "\<exists>s'. campaign f xs s = Some (Ran (True, s'))"
  using assms(2)
proof (induction xs arbitrary: s)
  case (Cons x xs)
  from assms(1) [OF Cons.prems, of x] obtain s' where "f x s = Some (Ran (True, s'))" "I s'" by blast
  with Cons.IH show ?case by simp
qed simp

lemma harness_initial: "harness_ok (fuzz_initialize (zero_daemon w))"
  by (simp add: harness_ok_def fuzz_initialize_def zero_daemon_def body_len_def stats_ok_def rst_text_def
      bad_hdr_def zero_client_def int32_def const_defs)

text \<open>
  C24. No fuzzing campaign crashes, hangs or aborts: run on any inputs, one after the other, from
  the initialised process, with any register map and any outside, both targets finish every input
  without undefined behaviour, and the invariant checks after each input pass: the free list whole,
  nothing queued, no mailbox transaction left in flight.
\<close>

theorem fuzz_campaign_clean:
  "\<exists>s s'. campaign (fuzz_msg (2 * MAX_QITEMS + 7 + k) S (fz_build K R)) inputs (fuzz_initialize (zero_daemon w)) = Some (Ran (True, s)) \<and>
     campaign (fuzz_frame (2 * MAX_QITEMS + 7 + k) S (fz_build K R)) inputs (fuzz_initialize (zero_daemon w)) = Some (Ran (True, s'))"
proof -
  have n: "2 * MAX_QITEMS + 7 \<le> 2 * MAX_QITEMS + 7 + k" by simp
  have "\<exists>s. campaign (fuzz_msg (2 * MAX_QITEMS + 7 + k) S (fz_build K R)) inputs (fuzz_initialize (zero_daemon w)) = Some (Ran (True, s))"
    by (rule campaign_ok [where I = harness_ok, OF _ harness_initial]) (rule fuzz_msg_ok [OF _ n])
  moreover have "\<exists>s. campaign (fuzz_frame (2 * MAX_QITEMS + 7 + k) S (fz_build K R)) inputs (fuzz_initialize (zero_daemon w)) = Some (Ran (True, s))"
    by (rule campaign_ok [where I = harness_ok, OF _ harness_initial]) (rule fuzz_frame_ok [OF _ n])
  ultimately show ?thesis by blast
qed

end
