(* ===== verification/Cli.thy ===== *)
theory Cli
  imports Protocol Daemon_State C_Getopt
begin

text \<open>
  The command-line client (\<^verbatim>\<open>spiproxy_cli.c\<close>) and the harness of its response parser
  (\<^verbatim>\<open>fuzz_resp.c\<close>). Its calls to the outside are the record \<open>'w cli_host\<close>. The exit code is a
  natural number; \<^term>\<open>None\<close> is undefined behaviour; the loop of \<^verbatim>\<open>hammer\<close> carries fuel.
\<close>

section \<open>State\<close>

text \<open>
  \<open>ch_send\<close> tells success, \<open>ch_recv\<close> gives the datagram or an error; \<open>ch_stack\<close> is what the
  uninitialised response buffers happen to hold; \<open>ch_qsort\<close> is \<^verbatim>\<open>qsort\<close> with a comparator.
\<close>

record 'w cli_host =
  ch_clock :: "'w \<Rightarrow> (u64 \<times> u64) \<times> 'w"
  ch_usleep :: "u32 \<Rightarrow> 'w \<Rightarrow> 'w"
  ch_connect :: "string \<Rightarrow> 'w \<Rightarrow> bool \<times> 'w"
  ch_send :: "u8 list \<Rightarrow> 'w \<Rightarrow> bool \<times> 'w"
  ch_recv :: "'w \<Rightarrow> u8 list option \<times> 'w"
  ch_strerror :: "'w \<Rightarrow> string"
  ch_stack :: "'w \<Rightarrow> mem"
  ch_calloc :: "nat \<Rightarrow> 'w \<Rightarrow> bool"
  ch_qsort :: "(u32 \<Rightarrow> u32 \<Rightarrow> int) \<Rightarrow> u32 list \<Rightarrow> u32 list"

record 'w cli =
  cs_connected :: bool
  cs_sock :: string
  cs_seq :: u32
  cs_out :: string
  cs_err :: string
  cs_world :: 'w

definition put :: "string \<Rightarrow> 'w cli \<Rightarrow> 'w cli" where
  "put t s = s\<lparr>cs_out := cs_out s @ t\<rparr>"

definition complain :: "string \<Rightarrow> 'w cli \<Rightarrow> 'w cli" where
  "complain t s = s\<lparr>cs_err := cs_err s @ t\<rparr>"

definition perror :: "'w cli_host \<Rightarrow> string \<Rightarrow> 'w cli \<Rightarrow> 'w cli" where
  "perror H t s = complain (t @ '': '' @ ch_strerror H (cs_world s) @ [CHR 0x0A]) s"

definition cli_now_us :: "'w cli_host \<Rightarrow> 'w cli \<Rightarrow> u64 \<times> 'w cli" where
  "cli_now_us H s =
     (let ((sec, nsec), w) = ch_clock H (cs_world s)
      in (sec * 1000000 + nsec div 1000, s\<lparr>cs_world := w\<rparr>))"

section \<open>Responses\<close>

text \<open>
  \<open>cap\<close> is the size of the caller's buffer, \<^term>\<open>None\<close> for no buffer. The result is the status,
  the bytes copied into the buffer (\<^term>\<open>None\<close>: nothing copied, \<^verbatim>\<open>*rlen\<close> untouched) and the
  diagnostic.
\<close>

definition parse_resp :: "u8 list \<Rightarrow> u32 \<Rightarrow> u8 \<Rightarrow> nat option \<Rightarrow> (int \<times> u8 list option \<times> string) option" where
  "parse_resp msg want_seq want_type cap =
     (if length msg < sizeof_hdr then
        Some (- 1, None, ''short response ('' @ show_dec (length msg) @ '' bytes)'' @ [CHR 0x0A])
      else
        (let h = dec_hdr (take sizeof_hdr msg)
         in if h_seq h \<noteq> want_seq \<or> h_type h \<noteq> want_type OR SPIPROXY_RESP then
              Some (- 1, None, ''bad response (seq '' @ pu (h_seq h) @ '' type '' @
                (if h_type h = 0 then ''0'' else ''0x'' @ show_hex (unat (h_type h))) @ '')'' @ [CHR 0x0A])
            else
              (case cap of
                 None \<Rightarrow> Some (int (unat (h_flags h)), None, '''')
               | Some c \<Rightarrow> do {
                   let avail = length msg - sizeof_hdr;
                   let rlen = (if unat (h_len h) < c then unat (h_len h) else c);
                   let rlen = (if avail < rlen then avail else rlen);
                   guard (sizeof_hdr + rlen \<le> length msg \<and> rlen \<le> c);
                   Some (int (unat (h_flags h)), Some (take rlen (drop sizeof_hdr msg)), '''')
                 })))"

section \<open>One request\<close>

definition cli_msg :: "spiproxy_type \<Rightarrow> u16 \<Rightarrow> u32 \<Rightarrow> u8 list \<Rightarrow> u8 list" where
  "cli_msg ty flags seq body =
     enc_hdr \<lparr>h_ver = SPIPROXY_VER, h_type = type_code ty, h_flags = flags, h_seq = seq, h_len = of_nat (length body)\<rparr>
     @ body"

definition cli_connect :: "'w cli_host \<Rightarrow> 'w cli \<Rightarrow> bool \<times> 'w cli" where
  "cli_connect H s =
     (if cs_connected s then (True, s)
      else
        (let (ok, w) = ch_connect H (take 107 (cs_sock s)) (cs_world s); s = s\<lparr>cs_world := w\<rparr>
         in if ok then (True, s\<lparr>cs_connected := True\<rparr>) else (False, perror H (cs_sock s) s)))"

definition xfer ::
    "'w cli_host \<Rightarrow> spiproxy_type \<Rightarrow> u16 \<Rightarrow> u8 list \<Rightarrow> nat option \<Rightarrow> 'w cli \<Rightarrow> (int \<times> u8 list option \<times> 'w cli) option" where
  "xfer H ty flags body cap s =
     (let (ok, s) = cli_connect H s
      in if \<not> ok then Some (- 1, None, s)
         else do {
           guard (length body \<le> SPIPROXY_MSG_MAX);
           let s = s\<lparr>cs_seq := cs_seq s + 1\<rparr>;
           let (ok, w) = ch_send H (cli_msg ty flags (cs_seq s) body) (cs_world s);
           let s = s\<lparr>cs_world := w\<rparr>;
           if \<not> ok then Some (- 1, None, perror H ''send'' s)
           else
             (let (r, w) = ch_recv H (cs_world s); s = s\<lparr>cs_world := w\<rparr>
              in case r of
                   None \<Rightarrow> Some (- 1, None, perror H ''recv'' s)
                 | Some d \<Rightarrow> do {
                     (st, resp, diag) \<leftarrow>
                       parse_resp (take (sizeof_hdr + SPIPROXY_MSG_MAX) d) (cs_seq s) (type_code ty) cap;
                     Some (st, resp, complain diag s)
                   })
         })"

text \<open>A response copied over the bytes a structure already has.\<close>

definition overlay :: "u8 list option \<Rightarrow> u8 list \<Rightarrow> u8 list" where
  "overlay r bs = (case r of None \<Rightarrow> bs | Some r \<Rightarrow> r @ drop (length r) bs)"

section \<open>Commands\<close>

definition num ::
    "string \<Rightarrow> nat \<Rightarrow> nat \<Rightarrow> nat \<Rightarrow> 'w cli \<Rightarrow> (nat \<Rightarrow> (nat \<times> 'w cli) option) \<Rightarrow> (nat \<times> 'w cli) option" where
  "num a base lo hi s k = (case parse_uint a base lo hi of Inl e \<Rightarrow> Some (1, complain e s) | Inr v \<Rightarrow> k v)"

definition exit_code :: "int \<Rightarrow> nat" where
  "exit_code st = (if st \<noteq> 0 then 1 else 0)"

definition mk_op :: "nat \<Rightarrow> nat \<Rightarrow> nat \<Rightarrow> nat \<Rightarrow> spiproxy_op" where
  "mk_op sl mmd reg val =
     \<lparr>o_slice = of_nat sl, o_write = 0, o_mmd = of_nat mmd, o_rsvd = 0, o_reg = of_nat reg, o_rsvd2 = 0,
      o_val = of_nat val\<rparr>"

definition cli_read :: "'w cli_host \<Rightarrow> string \<Rightarrow> string \<Rightarrow> string \<Rightarrow> 'w cli \<Rightarrow> (nat \<times> 'w cli) option" where
  "cli_read H a1 a2 a3 s =
     num a1 0 0 0xff s (\<lambda>sl. num a2 0 0 0xff s (\<lambda>mmd. num a3 0 0 0xffff s (\<lambda>reg.
       do {
         let p = mk_op sl mmd reg 0;
         (st, r, s) \<leftarrow> xfer H SPIPROXY_READ 0 (enc_op p) (Some sizeof_op) s;
         let p = dec_op (overlay r (enc_op p));
         Some (exit_code st, put (''status='' @ show_int st @ '' slice='' @ pu (o_slice p) @ '' mmd=0x'' @
           px2 (o_mmd p) @ '' reg=0x'' @ px4 (o_reg p) @ '' val=0x'' @ px8 (o_val p) @ [CHR 0x0A]) s)
       })))"

definition put_status :: "string \<Rightarrow> int \<Rightarrow> 'w cli \<Rightarrow> 'w cli" where
  "put_status t st s = put (t @ ''status='' @ show_int st @ [CHR 0x0A]) s"

definition cli_write :: "'w cli_host \<Rightarrow> string \<Rightarrow> string \<Rightarrow> string \<Rightarrow> string \<Rightarrow> 'w cli \<Rightarrow> (nat \<times> 'w cli) option" where
  "cli_write H a1 a2 a3 a4 s =
     num a1 0 0 0xff s (\<lambda>sl. num a2 0 0 0xff s (\<lambda>mmd. num a3 0 0 0xffff s (\<lambda>reg. num a4 0 0 0xffffffff s (\<lambda>val.
       do {
         (st, r, s) \<leftarrow> xfer H SPIPROXY_WRITE 0 (enc_op (mk_op sl mmd reg val)) (Some sizeof_op) s;
         Some (exit_code st, put_status '''' st s)
       }))))"

text \<open>An optional number among the arguments; absent, it is 0.\<close>

definition num_opt ::
    "string list \<Rightarrow> nat \<Rightarrow> 'w cli \<Rightarrow> (nat \<Rightarrow> (nat \<times> 'w cli) option) \<Rightarrow> (nat \<times> 'w cli) option" where
  "num_opt as i s k = (if i < length as then num (as ! i) 0 0 0xffffffff s k else k 0)"

definition cli_reset :: "'w cli_host \<Rightarrow> string list \<Rightarrow> 'w cli \<Rightarrow> (nat \<times> 'w cli) option" where
  "cli_reset H as s =
     num_opt as 0 s (\<lambda>a. num_opt as 1 s (\<lambda>d.
       do {
         (st, r, s) \<leftarrow> xfer H SPIPROXY_RESET 0 (enc_reset \<lparr>rs_assert_us = of_nat a, rs_deassert_us = of_nat d\<rparr>) None s;
         let s = (if st = int (unat (status_code SPIPROXY_ENOSYS)) then
                    complain (''reset: daemon has no reset GPIO configured (start it'' @
                      '' with -r <line-name>, e.g. -r lan8023-rst)'' @ [CHR 0x0A]) s
                  else s);
         Some (exit_code st, put_status '''' st s)
       }))"

section \<open>bench\<close>

definition cmp_u32 :: "u32 \<Rightarrow> u32 \<Rightarrow> int" where
  "cmp_u32 a b = sint (a - b)"

definition device_id_op :: "lan80xx_regs \<Rightarrow> spiproxy_op" where
  "device_id_op R = (mk_op 0 0 0 0)\<lparr>o_mmd := MMD_GLOBAL, o_reg := DEVICE_ID_REG R\<rparr>"

text \<open>
  The iterations from \<open>i\<close> (negative: warm-up) with the latencies so far; the operation is
  overwritten by each response and sent again, as in the source.
\<close>

function bench_loop ::
    "'w cli_host \<Rightarrow> int \<Rightarrow> int \<Rightarrow> spiproxy_op \<Rightarrow> u32 list \<Rightarrow> 'w cli \<Rightarrow> (u32 list option \<times> spiproxy_op \<times> 'w cli) option" where
  "bench_loop H i n p lat s =
     (if i < n then
        (let (t, s) = cli_now_us H s
         in do {
              (st, r, s) \<leftarrow> xfer H SPIPROXY_READ 0 (enc_op p) (Some sizeof_op) s;
              let p = dec_op (overlay r (enc_op p));
              if st \<noteq> 0 then Some (None, p, complain (''read failed at '' @ show_int i @ [CHR 0x0A]) s)
              else if 0 \<le> i then
                (let (t', s) = cli_now_us H s
                 in bench_loop H (i + 1) n p (lat @ [ucast (t' - t)]) s)
              else bench_loop H (i + 1) n p lat s
            })
      else Some (Some lat, p, s))"
  by pat_completeness auto
termination
  by (relation "measure (\<lambda>(H, i, n, p, lat, s). nat (n - i))") auto

declare bench_loop.simps [simp del]

text \<open>
  \<^verbatim>\<open>(int)(n * 0.9)\<close> in double precision: the constant is \<open>m / 2 ^ 53\<close>, the product is rounded
  to 53 significant bits, half to even, and truncated.
\<close>

definition round_even :: "nat \<Rightarrow> nat \<Rightarrow> nat" where
  "round_even a b =
     (let q = a div b; r = a mod b
      in if 2 * r < b \<or> 2 * r = b \<and> even q then q else q + 1)"

fun bit_length :: "nat \<Rightarrow> nat" where
  "bit_length n = (if n = 0 then 0 else Suc (bit_length (n div 2)))"

declare bit_length.simps [simp del]

definition scale_double :: "nat \<Rightarrow> nat \<Rightarrow> nat" where
  "scale_double m n =
     (let p = n * m; sh = bit_length p - 53
      in round_even p (2 ^ sh) * 2 ^ sh div 2 ^ 53)"

definition DOUBLE_0_9 :: nat where "DOUBLE_0_9 = 0x1CCCCCCCCCCCCD"
definition DOUBLE_0_99 :: nat where "DOUBLE_0_99 = 0x1FAE147AE147AE"

definition nth_lat :: "u32 list \<Rightarrow> nat \<Rightarrow> u32 option" where
  "nth_lat lat i = do { guard (i < length lat); Some (lat ! i) }"

definition cli_bench :: "'w cli_host \<Rightarrow> lan80xx_regs \<Rightarrow> string \<Rightarrow> 'w cli \<Rightarrow> (nat \<times> 'w cli) option" where
  "cli_bench H R a s =
     num a 10 1 (2 ^ 31 - 1) s (\<lambda>n.
       if \<not> ch_calloc H n (cs_world s) then Some (1, perror H ''calloc'' s)
       else do {
         (r, p, s) \<leftarrow> bench_loop H (- 50) (int n) (device_id_op R) [] s;
         case r of
           None \<Rightarrow> Some (1, s)
         | Some lat \<Rightarrow> do {
             let lat = ch_qsort H cmp_u32 lat;
             mn \<leftarrow> nth_lat lat 0;
             p50 \<leftarrow> nth_lat lat (n div 2);
             p90 \<leftarrow> nth_lat lat (scale_double DOUBLE_0_9 n);
             p99 \<leftarrow> nth_lat lat (scale_double DOUBLE_0_99 n);
             mx \<leftarrow> nth_lat lat (n - 1);
             Some (0, put (''proxied read rtt: n='' @ show_dec n @ '' min='' @ pu mn @ '' p50='' @ pu p50 @
               '' p90='' @ pu p90 @ '' p99='' @ pu p99 @ '' max='' @ pu mx @ '' us (val=0x'' @ px8 (o_val p) @
               '')'' @ [CHR 0x0A]) s)
           }
       })"

section \<open>hammer, claimtest, mailbox, stats and trace\<close>

text \<open>The fuel bounds the iterations; \<^term>\<open>Some None\<close>: out of fuel.\<close>

fun hammer_loop ::
    "nat \<Rightarrow> 'w cli_host \<Rightarrow> u64 \<Rightarrow> u64 \<Rightarrow> spiproxy_op \<Rightarrow> 'w cli \<Rightarrow> (nat \<times> 'w cli) option option" where
  "hammer_loop 0 H t_end cnt p s = Some None"
| "hammer_loop (Suc k) H t_end cnt p s =
     (let (t, s) = cli_now_us H s
      in if t < t_end then do {
           (st, r, s) \<leftarrow> xfer H SPIPROXY_READ SPIPROXY_PRIO_LOW (enc_op p) (Some sizeof_op) s;
           let p = dec_op (overlay r (enc_op p));
           if st \<noteq> 0 then Some (Some (1, complain (''hammer: read failed'' @ [CHR 0x0A]) s))
           else if o_val p = 0 \<or> o_val p AND 0xff00 \<noteq> 0x8000 then
             Some (Some (1, complain (''hammer: bad DEVICE_ID 0x'' @ px8 (o_val p) @ '' after '' @ pu cnt @
               '' reads'' @ [CHR 0x0A]) s))
           else hammer_loop k H t_end (cnt + 1) p s
         }
         else Some (Some (0, put (''hammer: '' @ pu cnt @ '' reads, all DEVICE_ID ok (0x'' @ px8 (o_val p) @ '')'' @
           [CHR 0x0A]) s)))"

definition cli_hammer ::
    "nat \<Rightarrow> 'w cli_host \<Rightarrow> lan80xx_regs \<Rightarrow> string \<Rightarrow> 'w cli \<Rightarrow> (nat \<times> 'w cli) option option" where
  "cli_hammer k H R a s =
     (case parse_uint a 10 0 (2 ^ 31 - 1) of
        Inl e \<Rightarrow> Some (Some (1, complain e s))
      | Inr v \<Rightarrow>
          (let (t, s) = cli_now_us H s
           in hammer_loop k H (t + of_nat v * 1000000) 0 (device_id_op R) s))"

definition cli_claimtest :: "'w cli_host \<Rightarrow> lan80xx_regs \<Rightarrow> string \<Rightarrow> 'w cli \<Rightarrow> (nat \<times> 'w cli) option" where
  "cli_claimtest H R a s =
     num a 10 0 0xffffffff s (\<lambda>v.
       do {
         let body = enc_claim \<lparr>cl_max_ms = of_nat v, cl_ncleanup = 1, cl_rsvd = 0\<rparr> @ enc_op (device_id_op R);
         (st, r, s) \<leftarrow> xfer H SPIPROXY_CLAIM 0 body None s;
         let s = put_status ''claim: '' st s;
         if st \<noteq> 0 then Some (1, s)
         else do {
           let p = device_id_op R;
           (st, r, s) \<leftarrow> xfer H SPIPROXY_READ 0 (enc_op p) (Some sizeof_op) s;
           let p = dec_op (overlay r (enc_op p));
           let s = put (''read under claim: status='' @ show_int st @ '' val=0x'' @ px8 (o_val p) @ [CHR 0x0A]) s;
           let s = s\<lparr>cs_world := ch_usleep H 200000 (cs_world s)\<rparr>;
           (st, r, s) \<leftarrow> xfer H SPIPROXY_RELEASE 0 [] None s;
           Some (0, put_status ''release: '' st s)
         }
       })"

fun mb_args :: "string list \<Rightarrow> u8 list \<Rightarrow> 'w cli \<Rightarrow> (nat \<times> 'w cli) + u8 list" where
  "mb_args [] bs s = Inr bs"
| "mb_args (a # as) bs s =
     (if SPIPROXY_MB_MAX \<le> length bs then
        Inl (1, complain (''mailbox: too many payload bytes (max '' @ show_dec SPIPROXY_MB_MAX @ '')'' @ [CHR 0x0A]) s)
      else
        (case parse_uint a 16 0 0xff of
           Inl e \<Rightarrow> Inl (1, complain e s)
         | Inr v \<Rightarrow> mb_args as (bs @ [of_nat v]) s))"

text \<open>
  The print loop reads \<^verbatim>\<open>resp[sizeof(*rmb) + i]\<close>, defined only inside the buffer.
\<close>

fun mb_print :: "mem \<Rightarrow> nat list \<Rightarrow> 'w cli \<Rightarrow> 'w cli option" where
  "mb_print resp [] s = Some s"
| "mb_print resp (i # is) s =
     do {
       guard (sizeof_mb + i < sizeof_mb + SPIPROXY_MB_MAX);
       mb_print resp is (put (px2 (resp (sizeof_mb + i)) @ (if i mod 16 = 15 then [CHR 0x0A] else '' '')) s)
     }"

definition cli_mailbox :: "'w cli_host \<Rightarrow> nat \<Rightarrow> string \<Rightarrow> string list \<Rightarrow> 'w cli \<Rightarrow> (nat \<times> 'w cli) option" where
  "cli_mailbox H timeout_ms a as s =
     num a 0 0 0xff s (\<lambda>cmd.
       case mb_args as [] s of
         Inl e \<Rightarrow> Some e
       | Inr payload \<Rightarrow> do {
           let stack = ch_stack H (cs_world s);
           let rq = enc_mb \<lparr>mb_slice = 0, mb_cmd = of_nat cmd, mb_payload_len = of_nat (length payload),
                            mb_timeout_ms = of_nat timeout_ms\<rparr> @ payload;
           (st, r, s) \<leftarrow> xfer H SPIPROXY_MAILBOX 0 rq (Some (sizeof_mb + SPIPROXY_MB_MAX)) s;
           let resp = (case r of None \<Rightarrow> stack | Some bs \<Rightarrow> mem_write 0 bs stack);
           let rmb = dec_mb (mem_read resp 0 sizeof_mb);
           let s = put (''mailbox: status='' @ show_int st @ '' resp_id=0x'' @ px2 (mb_cmd rmb) @
             '' payload_len='' @ pu (mb_payload_len rmb) @ [CHR 0x0A]) s;
           s \<leftarrow> (if st = 0 then mb_print resp [0..<unat (mb_payload_len rmb)] s else Some s);
           let s = (if st = 0 \<and> mb_payload_len rmb \<noteq> 0 then put [CHR 0x0A] s else s);
           Some (exit_code st, s)
         })"

text \<open>\<^verbatim>\<open>fputs\<close> prints up to the first NUL; the source puts one at \<^verbatim>\<open>txt[rlen]\<close>.\<close>

definition cli_text :: "'w cli_host \<Rightarrow> spiproxy_type \<Rightarrow> 'w cli \<Rightarrow> (nat \<times> 'w cli) option" where
  "cli_text H ty s =
     do {
       let stack = ch_stack H (cs_world s);
       (st, r, s) \<leftarrow> xfer H ty 0 [] (Some SPIPROXY_MSG_MAX) s;
       let txt = (case r of None \<Rightarrow> mem_read stack 0 SPIPROXY_MSG_MAX | Some bs \<Rightarrow> bs);
       Some (exit_code st, put (map (char_of \<circ> unat) (takeWhile (\<lambda>b. b \<noteq> 0) txt)) s)
     }"

section \<open>main\<close>

fun cli_opts :: "opt list \<Rightarrow> nat \<Rightarrow> 'w cli \<Rightarrow> (nat \<times> 'w cli) + nat \<times> 'w cli" where
  "cli_opts [] timeout s = Inr (timeout, s)"
| "cli_opts (Opt c arg # os) timeout s =
     (if c = CHR ''s'' then cli_opts os timeout (s\<lparr>cs_sock := arg\<rparr>)
      else if c = CHR ''t'' then
        (case parse_uint arg 0 0 0xffffffff of
           Inl e \<Rightarrow> Inl (1, complain e s)
         | Inr v \<Rightarrow> cli_opts os v s)
      else Inl (1, complain (''see header comment for usage'' @ [CHR 0x0A]) s))"
| "cli_opts (BadOpt # os) timeout s = Inl (1, complain (''see header comment for usage'' @ [CHR 0x0A]) s)"

definition cli_command ::
    "nat \<Rightarrow> 'w cli_host \<Rightarrow> lan80xx_regs \<Rightarrow> nat \<Rightarrow> string list \<Rightarrow> 'w cli \<Rightarrow> (nat \<times> 'w cli) option option" where
  "cli_command k H R timeout argv s =
     (case argv of
        [] \<Rightarrow> Some (Some (1, complain (''missing command'' @ [CHR 0x0A]) s))
      | cmd # as \<Rightarrow>
          if cmd = ''read'' \<and> length argv = 4 then map_option Some (cli_read H (as ! 0) (as ! 1) (as ! 2) s)
          else if cmd = ''write'' \<and> length argv = 5 then
            map_option Some (cli_write H (as ! 0) (as ! 1) (as ! 2) (as ! 3) s)
          else if cmd = ''reset'' then map_option Some (cli_reset H as s)
          else if cmd = ''bench'' \<and> length argv = 2 then map_option Some (cli_bench H R (as ! 0) s)
          else if cmd = ''hammer'' \<and> length argv = 2 then cli_hammer k H R (as ! 0) s
          else if cmd = ''claimtest'' \<and> length argv = 2 then map_option Some (cli_claimtest H R (as ! 0) s)
          else if cmd = ''mailbox'' \<and> 2 \<le> length argv then map_option Some (cli_mailbox H timeout (as ! 0) (tl as) s)
          else if cmd = ''stats'' then map_option Some (cli_text H SPIPROXY_STATS s)
          else if cmd = ''trace'' then map_option Some (cli_text H SPIPROXY_TRACE s)
          else Some (Some (1, complain (''unknown command '' @ [CHR 0x27] @ cmd @ [CHR 0x27, CHR 0x0A]) s)))"

definition cli_main :: "nat \<Rightarrow> 'w cli_host \<Rightarrow> lan80xx_regs \<Rightarrow> string list \<Rightarrow> 'w \<Rightarrow> (nat \<times> 'w cli) option option" where
  "cli_main k H R args w =
     (let (os, argv) = getopt (optstring ''s:t:h'') args;
          s = \<lparr>cs_connected = False, cs_sock = ''/run/lan80xx-spid.sock'', cs_seq = 0, cs_out = '''', cs_err = '''',
               cs_world = w\<rparr>
      in case cli_opts os 0 s of
           Inl e \<Rightarrow> Some (Some e)
         | Inr (timeout, s) \<Rightarrow> cli_command k H R timeout argv s)"

section \<open>fuzz\_resp.c\<close>

definition fuzz_resp :: "u8 list \<Rightarrow> (int \<times> u8 list option \<times> string) option" where
  "fuzz_resp data =
     (let msg = take (sizeof_hdr + SPIPROXY_MSG_MAX) data;
          h = dec_hdr (take sizeof_hdr msg);
          (want_seq, want_type) =
            (if sizeof_hdr \<le> length msg then (h_seq h, h_type h AND NOT SPIPROXY_RESP) else (0, 0))
      in parse_resp msg want_seq want_type (Some SPIPROXY_MSG_MAX))"

end
