(* ===== verification/Samples.thy ===== *)
theory Samples
  imports Server
begin

text \<open>
  Concrete instances on which the theorems of the development are applied: an environment that
  always succeeds, a register map, daemon states over any outside world, just after start-up and
  with a request queued.
\<close>

definition sample_kernel :: "'w kernel" where
  "sample_kernel =
     \<lparr>k_clock = (\<lambda>w. ((0, 0), w)), k_usleep = (\<lambda>d w. w), k_send = (\<lambda>fd m w. (0, w)),
      k_spi = (\<lambda>tx f w. ((7, \<lambda>i. 0), w)), k_gpio = (\<lambda>fd b w. (0, w)),
      k_stack_pkt = (\<lambda>w i. 0), k_stack_v = (\<lambda>w. 0)\<rparr>"

definition sample_regs :: lan80xx_regs where
  "sample_regs =
     \<lparr>DEVICE_ID_REG = 0, SILICON_REVISION_REG = 1, FEATURE_DISABLE_REG = 2,
      HOST_PCS25G_STATUS1 = 1, HOST_PCS25G_BASER_STATUS1 = 0x20, HOST_PCS25G_BASER_STATUS2 = 0x21,
      LINE_PCS25G_STATUS1 = 1\<rparr>"

abbreviation sample_hw :: "'w build" where
  "sample_hw \<equiv> hw_build sample_kernel sample_regs"

definition sample_daemon :: "'w \<Rightarrow> 'w daemon" where
  "sample_daemon w = init_daemon ''/dev/spidev0.0'' ''/run/lan80xx-spid.sock'' 1 5000000 None (- 1) False w"

definition sample_client :: client where
  "sample_client = \<lparr>c_fd = 5, c_used = True, c_id = 1, c_pid = 100, c_comm = ''mepa'',
     c_n_ops = 0, c_n_msgs = 0, c_n_err = 0\<rparr>"

definition connect :: "'w daemon \<Rightarrow> 'w daemon" where
  "connect s = s\<lparr>cl := (cl s)(0 := sample_client)\<rparr>"

abbreviation connected_daemon :: "'w \<Rightarrow> 'w daemon" where
  "connected_daemon w \<equiv> connect (sample_daemon w)"

definition request :: "spiproxy_type \<Rightarrow> nat \<Rightarrow> spiproxy_hdr" where
  "request ty n = \<lparr>h_ver = SPIPROXY_VER, h_type = type_code ty, h_flags = 0, h_seq = 7, h_len = of_nat n\<rparr>"

definition queued :: "spiproxy_type \<Rightarrow> u8 list \<Rightarrow> 'w \<Rightarrow> 'w daemon" where
  "queued ty body w = the (enqueue sample_hw 0 (request ty (length body)) body (connected_daemon w))"

definition one_queued :: "nat \<Rightarrow> nat list" where
  "one_queued = (\<lambda>q. [])(1 := [0])"

definition sample_sockets :: "'w sockets" where
  "sample_sockets =
     \<lparr>so_accept = (\<lambda>w. (6, w)), so_peer_pid = (\<lambda>fd w. (100, w)),
      so_proc_comm = (\<lambda>pid w. (Some (''mepa'' @ [CHR 0x0A]), w)), so_recv = (\<lambda>fd w. (None, w)),
      so_close = (\<lambda>fd w. w), so_epoll_add = (\<lambda>fd w. w), so_epoll_del = (\<lambda>fd w. w),
      so_epoll_wait = (\<lambda>t w. ([], w))\<rparr>"

definition sample_op :: "u8 \<Rightarrow> u8 \<Rightarrow> u16 \<Rightarrow> u32 \<Rightarrow> spiproxy_op" where
  "sample_op wr mmd reg v =
     \<lparr>o_slice = 0, o_write = wr, o_mmd = mmd, o_rsvd = 0, o_reg = reg, o_rsvd2 = 0, o_val = v\<rparr>"

definition sample_mb :: spiproxy_mb where
  "sample_mb = \<lparr>mb_slice = 0, mb_cmd = 1, mb_payload_len = 0, mb_timeout_ms = 0\<rparr>"

text \<open>A stub feed: the interrupt mask, then the mailbox response with id 2 and payload 9.\<close>

definition sample_feed :: "unit fuzz_world" where
  "sample_feed = \<lparr>g_fuzz_spi = le32 0 @ mb_pkt 2 0 [9], g_fuzz_spi_pos = 0, g_fuzz_mb_reads = 0, fz_kernel = ()\<rparr>"

section \<open>Facts\<close>

lemma sample_inv: "server_inv (sample_daemon w)"
  unfolding sample_daemon_def by (rule init_inv) (simp_all add: const_defs int32_def)

lemma connect_sched: "sched_ok (connect s) F Q L = sched_ok s F Q L"
proof -
  have "link_of (connect s) = link_of s"
    by (simp add: connect_def link_of_def fun_eq_iff)
  then show ?thesis using sched_ok_cong by blast
qed

lemma connected_inv: "server_inv (connected_daemon w)"
  using new_client_inv [of "sample_daemon w" 0 sample_client "next_cid (sample_daemon w)"] sample_inv [of w]
  by (simp add: connect_def sample_client_def int32_def const_defs)

lemma connected_sched: "sched_ok (connected_daemon w) [0..<MAX_QITEMS] (\<lambda>q. []) []"
  unfolding connect_sched sample_daemon_def by (rule init_sched)

lemma connected_fields:
  "cl (connected_daemon w) 0 = sample_client" "claim_owner (connected_daemon w) = None"
  "sent (connected_daemon w) = []" "rst_fd (connected_daemon w) = - 1" "world (connected_daemon w) = w"
  "mb_inflight (connected_daemon w) = False" "pad (connected_daemon w) = 1"
  "claim_ncleanup (connected_daemon w) = 0" "stop (connected_daemon w) = False"
  by (simp_all add: connect_def sample_daemon_def init_daemon_def chain_pool_def zero_daemon_def)

lemma pool_cons: "[0..<MAX_QITEMS] = 0 # [1..<MAX_QITEMS]"
  by (simp add: upt_conv_Cons const_defs)

lemma queued_facts:
  assumes "length body \<le> SPIPROXY_MSG_MAX"
  shows "enqueue sample_hw 0 (request ty (length body)) body (connected_daemon w) = Some (queued ty body w)" (is ?en)
    and "sched_ok (queued ty body w) [1..<MAX_QITEMS] one_queued []" (is ?sched)
    and "server_inv (queued ty body w)" (is ?inv) and "daemon_ok (queued ty body w)" (is ?ok)
    and "q_c (pool (queued ty body w) 0) = 0" (is ?c)
    and "q_hdr (pool (queued ty body w) 0) = request ty (length body)" (is ?hdr)
    and "read_body 0 0 (length body) (queued ty body w) = body" (is ?body)
    and "cl (queued ty body w) = cl (connected_daemon w)" (is ?cl)
    and "sent (queued ty body w) = []" (is ?sent) and "claim_owner (queued ty body w) = None" (is ?own)
    and "\<not> mb_inflight (queued ty body w)" (is ?mb) and "rst_fd (queued ty body w) = - 1" (is ?rst)
proof -
  let ?h = "request ty (length body)" and ?s = "connected_daemon w"
  have len: "unat (h_len ?h) = length body" using assms by (simp add: request_def unat_of_nat const_defs)
  have q: "prio_queue (h_flags ?h) = 1" by (simp add: prio_queue_def request_def const_defs)
  have c: "0 \<in> live ?s" by (simp add: live_def connected_fields sample_client_def const_defs)
  from enqueue_links [OF connected_sched [unfolded pool_cons] len assms, of sample_hw 0 w]
    enqueue_inv [OF connected_inv c len assms, of sample_hw]
  obtain s where s: "enqueue sample_hw 0 ?h body ?s = Some s" "sched_ok s [1..<MAX_QITEMS] one_queued []"
    "server_inv s" "tags_of s = (tags_of ?s)(0 := (0, ?h))" "mem_read (q_body (pool s 0)) 0 (length body) = body"
    "cl s = cl ?s" "sent s = sent ?s" "claim_of s = claim_of ?s" "conf_of s = conf_of ?s" "mb_inflight s = mb_inflight ?s"
    by (auto simp: holds_iff q one_queued_def)
  then have e: "queued ty body w = s" by (simp add: queued_def)
  from fun_cong [OF s(4), of 0] have "q_c (pool s 0) = 0" "q_hdr (pool s 0) = ?h" by (simp_all add: tags_of_def)
  then show ?en ?sched ?inv ?c ?hdr ?body ?cl ?sent ?own ?mb ?rst ?ok
    unfolding e using s by (simp_all add: read_body_def connected_fields claim_of_def conf_of_def server_inv_def owned_def)
qed

lemma queued_read:
  assumes "length body \<le> SPIPROXY_MSG_MAX" and "i + n \<le> length body"
  shows "read_body 0 i n (queued ty body w) = take n (drop i body)"
proof -
  let ?m = "q_body (pool (queued ty body w) 0)"
  have "mem_read ?m 0 (length body) = body" using queued_facts(7) [OF assms(1)] by (simp add: read_body_def)
  then have "?m k = body ! k" if "k < length body" for k
    using that by (metis add_0 length_mem_read nth_mem_read)
  then show ?thesis using assms(2) by (intro nth_equalityI) (simp_all add: read_body_def)
qed

lemma inflight_upd [simp]:
  "sched_ok (s\<lparr>mb_inflight := b\<rparr>) F Q L = sched_ok s F Q L" "daemon_ok (s\<lparr>mb_inflight := b\<rparr>) = daemon_ok s"
  by (rule sched_ok_cong) (simp_all add: link_of_def daemon_ok_def body_len_def stats_ok_def rst_text_def)

context spi_backend
begin

lemma one_drained:
  assumes "sched_ok s F one_queued L" and "daemon_ok s" and "claim_owner s = None"
    and "type_of_code (h_type (q_hdr (pool s 0))) \<noteq> Some SPIPROXY_MAILBOX"
  shows "\<exists>s'. drain_queues 3 B 1 s = Some (Ran s')"
proof -
  have "item_eligible s 0" using assms(3) by (simp add: item_eligible_def)
  then have p: "pick_spec (item_eligible s) one_queued [0, 1, 2] = Some (1, 0)"
    by (simp add: pick_spec.simps one_queued_def)
  obtain s1 s2 where "dequeue s = Some (Some (0, s1))" "exec_item (mb_wait 2 B) B 0 s1 = Some (Ran s2)"
    by (rule plain_turn [OF assms(1,2) p assms(4), of "mb_wait 2 B"])
  then have "drain_queues 3 B 1 s = Some (Ran (free_item 0 s2))"
    by (simp add: numeral_3_eq_3 numeral_2_eq_2)
  then show ?thesis ..
qed

end

lemma queued_type: "length body \<le> SPIPROXY_MSG_MAX \<Longrightarrow> type_of_code (h_type (q_hdr (pool (queued ty body w) 0))) = Some ty"
  by (simp add: queued_facts(6) request_def)

lemma queued_len: "length body \<le> SPIPROXY_MSG_MAX \<Longrightarrow> body_len 0 (queued ty body w) = length body"
  by (simp add: body_len_def queued_facts(6) request_def unat_of_nat const_defs)

lemma enqueue_world:
  "enqueue B c h body s = Some s' \<Longrightarrow> freel s \<noteq> None \<Longrightarrow> \<not> log_sink s \<Longrightarrow> world s' = world s"
  by (auto simp: enqueue_def Let_def link_tail_def set_next_def log_trace_def trace_v_def Option.bind_eq_Some_conv
      split: option.splits if_splits)

lemma queued_world: "length body \<le> SPIPROXY_MSG_MAX \<Longrightarrow> world (queued ty body w) = w"
  using enqueue_world [OF queued_facts(1) [of body ty w]]
  by (simp add: connect_def sample_daemon_def init_daemon_def chain_pool_def zero_daemon_def)

end
