(* ===== verification/Fuzz_Seeds.thy ===== *)
theory Fuzz_Seeds
  imports Fuzz_Harness Cli Samples
begin

text \<open>
  The generator of the seed corpora (\<^verbatim>\<open>fuzz/gen_seeds.py\<close>). \<^verbatim>\<open>struct.pack\<close> with a little-endian
  format raises an error on a value that does not fit, here \<^term>\<open>None\<close>; the tables are
  association lists from file name to contents. Shown: the harnesses take the generator's inputs
  apart into exactly the messages it put in.
\<close>

section \<open>struct.pack\<close>

definition pack_B :: "nat \<Rightarrow> u8 list option" where
  "pack_B n = (if n < 2 ^ 8 then Some [of_nat n] else None)"

definition pack_H :: "nat \<Rightarrow> u8 list option" where
  "pack_H n = (if n < 2 ^ 16 then Some (le16 (of_nat n)) else None)"

definition pack_I :: "nat \<Rightarrow> u8 list option" where
  "pack_I n = (if n < 2 ^ 32 then Some (le32 (of_nat n)) else None)"

section \<open>Messages\<close>

definition seed_hdr :: "nat \<Rightarrow> u8 list \<Rightarrow> u8 list option" where
  "seed_hdr msg_type body =
     do {
       v \<leftarrow> pack_B 1; t \<leftarrow> pack_B msg_type; f \<leftarrow> pack_H 0; q \<leftarrow> pack_I 1; n \<leftarrow> pack_I (length body);
       Some (v @ t @ f @ q @ n @ body)
     }"

definition seed_op :: "nat \<Rightarrow> nat \<Rightarrow> nat \<Rightarrow> nat \<Rightarrow> nat \<Rightarrow> u8 list option" where
  "seed_op sl wr mmd reg val =
     do {
       a \<leftarrow> pack_B sl; b \<leftarrow> pack_B wr; c \<leftarrow> pack_B mmd; d \<leftarrow> pack_B 0; e \<leftarrow> pack_H reg; f \<leftarrow> pack_H 0; g \<leftarrow> pack_I val;
       Some (a @ b @ c @ d @ e @ f @ g)
     }"

definition seed_frame :: "u8 list \<Rightarrow> nat \<Rightarrow> u8 list option" where
  "seed_frame msg client =
     do { h \<leftarrow> pack_H (push_bit 15 (client AND 1) OR (length msg AND 0x7FFF)); Some (h @ msg) }"

definition seed_dgram :: "u8 list \<Rightarrow> u8 list option" where
  "seed_dgram datagram = do { h \<leftarrow> pack_H (length datagram); Some (h @ datagram) }"

fun seed_frames :: "(nat \<times> u8 list) list \<Rightarrow> u8 list \<Rightarrow> u8 list option" where
  "seed_frames [] out = Some out"
| "seed_frames ((client, msg) # ms) out = do { f \<leftarrow> seed_frame msg client; seed_frames ms (out @ f) }"

definition seed_make :: "(nat \<times> u8 list) list \<Rightarrow> u8 list \<Rightarrow> u8 list option" where
  "seed_make messages feed = do { h \<leftarrow> pack_H (length feed); seed_frames messages (h @ feed) }"

definition seed_one :: "nat \<Rightarrow> u8 list \<Rightarrow> u8 list \<Rightarrow> u8 list option" where
  "seed_one msg_type body feed = do { m \<leftarrow> seed_hdr msg_type body; seed_make [(0, m)] feed }"

section \<open>The corpora\<close>

definition seed_claim :: "u8 list option" where
  "seed_claim =
     do { a \<leftarrow> pack_I 100; b \<leftarrow> pack_H 1; c \<leftarrow> pack_H 0; p \<leftarrow> seed_op 0 0 0x1E 0x0000 0; Some (a @ b @ c @ p) }"

definition seeds :: "(string \<times> u8 list) list option" where
  "seeds =
     do {
       claim \<leftarrow> seed_claim;
       let payload = [0xAA, 0xBB, 0xCC, 0xDD];
       a \<leftarrow> pack_B 0; b \<leftarrow> pack_B 0x19; c \<leftarrow> pack_H (length payload); d \<leftarrow> pack_I 0;
       let mb = a @ b @ c @ d @ payload;
       rd \<leftarrow> seed_op 0 0 0x1E 0x0000 0;
       rel \<leftarrow> seed_hdr 5 [];
       let mb_feed = [0, 0, 0, 0, 0, 0, 8, 0] @ replicate 8 0xAA;
       read \<leftarrow> seed_one 1 rd [];
       w \<leftarrow> seed_op 0 1 0x0B 0x0021 0x1234;
       write \<leftarrow> seed_one 2 w [];
       b1 \<leftarrow> seed_op 0 0 0x09 0x8002 0; b2 \<leftarrow> seed_op 0 0 0x01 0x0001 0; b3 \<leftarrow> seed_op 1 1 0x0B 0xE019 0xFF;
       batch \<leftarrow> seed_one 3 (b1 @ b2 @ b3) [];
       claim1 \<leftarrow> seed_one 4 claim [];
       release \<leftarrow> seed_one 5 [] [];
       mailbox \<leftarrow> seed_one 6 mb [];
       mailbox_resp \<leftarrow> seed_one 6 mb mb_feed;
       mb_ioerr \<leftarrow> seed_one 6 mb [0x11, 0xFA, 0x70, 0xE7];
       stats \<leftarrow> seed_one 7 [] [];
       trace \<leftarrow> seed_one 8 [] [];
       r1 \<leftarrow> pack_I 10000; r2 \<leftarrow> pack_I 100000;
       reset \<leftarrow> seed_one 12 (r1 @ r2) [];
       mc \<leftarrow> seed_hdr 4 claim; mr \<leftarrow> seed_hdr 1 rd; mm \<leftarrow> seed_hdr 6 mb;
       claim_seq \<leftarrow> seed_make [(0, mc), (0, mr), (0, rel)] [];
       cross_claim \<leftarrow> seed_make [(0, mc), (1, mr), (0, rel)] [];
       g \<leftarrow> seed_op 0 0 0x1E 0xD800 0;
       mg \<leftarrow> seed_hdr 1 g;
       mb_guard \<leftarrow> seed_make [(0, mm), (0, mg)] mb_feed;
       Some [(''read'', read), (''write'', write), (''batch'', batch), (''claim'', claim1), (''release'', release),
         (''mailbox'', mailbox), (''mailbox_resp'', mailbox_resp), (''mb_ioerr'', mb_ioerr), (''stats'', stats),
         (''trace'', trace), (''reset'', reset), (''claim_seq'', claim_seq), (''cross_claim'', cross_claim),
         (''mb_guard'', mb_guard)]
     }"

definition frame_seeds :: "(string \<times> u8 list) list option" where
  "frame_seeds =
     do {
       rd \<leftarrow> seed_op 0 0 0x1E 0x0000 0;
       claim \<leftarrow> seed_claim;
       w \<leftarrow> seed_op 0 1 0x0B 0x0021 0x1234;
       mr \<leftarrow> seed_hdr 1 rd; mw \<leftarrow> seed_hdr 2 w; ms \<leftarrow> seed_hdr 7 []; mc \<leftarrow> seed_hdr 4 claim;
       read \<leftarrow> seed_dgram mr; write \<leftarrow> seed_dgram mw; stats \<leftarrow> seed_dgram ms; claim1 \<leftarrow> seed_dgram mc;
       Some [(''read'', read), (''write'', write), (''stats'', stats), (''claim'', claim1), (''seq'', claim1 @ read)]
     }"

definition seed_rhdr :: "nat \<Rightarrow> u8 list \<Rightarrow> u8 list option" where
  "seed_rhdr ty body =
     do {
       v \<leftarrow> pack_B 1; t \<leftarrow> pack_B (ty OR 0x80); f \<leftarrow> pack_H 0; q \<leftarrow> pack_I 1; n \<leftarrow> pack_I (length body);
       Some (v @ t @ f @ q @ n @ body)
     }"

definition resp_seeds :: "(string \<times> u8 list) list option" where
  "resp_seeds =
     do {
       read \<leftarrow> seed_rhdr 1 [0x11, 0x22, 0x33, 0x44];
       empty \<leftarrow> seed_rhdr 5 [];
       stats \<leftarrow> seed_rhdr 7 (bytes_of_string (''dev=x freq=1'' @ [CHR 0x0A]));
       Some [(''read'', read), (''empty'', empty), (''stats'', stats)]
     }"

section \<open>The layouts are those of the protocol\<close>

lemmas pack_defs = pack_B_def pack_H_def pack_I_def

lemma seed_hdr_layout:
  "ty < 2 ^ 8 \<Longrightarrow> length body < 2 ^ 32 \<Longrightarrow> seed_hdr ty body =
     Some (enc_hdr \<lparr>h_ver = SPIPROXY_VER, h_type = of_nat ty, h_flags = 0, h_seq = 1, h_len = of_nat (length body)\<rparr> @ body)"
  by (simp add: seed_hdr_def pack_defs enc_hdr_def const_defs)

lemma seed_op_layout:
  "sl < 2 ^ 8 \<Longrightarrow> wr < 2 ^ 8 \<Longrightarrow> mmd < 2 ^ 8 \<Longrightarrow> reg < 2 ^ 16 \<Longrightarrow> val < 2 ^ 32 \<Longrightarrow> seed_op sl wr mmd reg val =
     Some (enc_op \<lparr>o_slice = of_nat sl, o_write = of_nat wr, o_mmd = of_nat mmd, o_rsvd = 0, o_reg = of_nat reg, o_rsvd2 = 0,
       o_val = of_nat val\<rparr>)"
  by (simp add: seed_op_def pack_defs enc_op_def)

lemma seed_frame_ok:
  assumes "ty < 2 ^ 8" and "length body \<le> SPIPROXY_MSG_MAX" and "seed_hdr ty body = Some m"
  shows "frame_ok m" and "drop sizeof_hdr m = body" and "h_type (dec_hdr (take sizeof_hdr m)) = of_nat ty"
proof -
  have l: "length body < 2 ^ 32" using assms(2) by (simp add: const_defs)
  have m: "m = enc_hdr \<lparr>h_ver = SPIPROXY_VER, h_type = of_nat ty, h_flags = 0, h_seq = 1, h_len = of_nat (length body)\<rparr> @ body"
    using seed_hdr_layout [OF assms(1) l] assms(3) by simp
  show "drop sizeof_hdr m = body" and "h_type (dec_hdr (take sizeof_hdr m)) = of_nat ty" unfolding m by simp_all
  have "length m = sizeof_hdr + length body" unfolding m by simp
  moreover have "h_ver (dec_hdr (take sizeof_hdr m)) = SPIPROXY_VER" "unat (h_len (dec_hdr (take sizeof_hdr m))) = length body"
    using l unfolding m by (simp_all add: unat_of_nat)
  ultimately show "frame_ok m" using assms(2) by (simp add: frame_ok_def Let_def unat_of_nat const_defs)
qed

lemma resp_seeds_parsed:
  "\<exists>t. resp_seeds = Some t \<and> (\<forall>(name, d) \<in> set t. fuzz_resp d = Some (0, Some (drop sizeof_hdr d), []))"
  by (simp add: resp_seeds_def seed_rhdr_def pack_defs bytes_of_string_def fuzz_resp_def parse_resp_def dec_hdr_def
      le16_def le32_def Let_def guard_def const_defs un_le16_def un_le32_def)

section \<open>The harness takes the inputs apart\<close>

text \<open>The messages of an input, each handed to \<^verbatim>\<open>enqueue\<close> for its client.\<close>

fun enqueue_msgs :: "'w build \<Rightarrow> (nat \<times> u8 list) list \<Rightarrow> 'w daemon \<Rightarrow> 'w daemon option" where
  "enqueue_msgs B [] s = Some s"
| "enqueue_msgs B ((client, msg) # ms) s =
     do {
       s \<leftarrow> enqueue B (fuzz_cl (client mod FUZZ_NCLIENTS))
         ((dec_hdr (take sizeof_hdr msg))\<lparr>h_len := of_nat (length msg - sizeof_hdr)\<rparr>) (drop sizeof_hdr msg) s;
       enqueue_msgs B ms s
     }"

definition framing :: "u8 list \<Rightarrow> nat \<Rightarrow> u16" where
  "framing msg client = of_nat (push_bit 15 (client AND 1) OR (length msg AND 0x7FFF))"

lemma framing_nat:
  assumes "length msg < 2 ^ 15"
  shows "push_bit 15 (client AND 1) OR (length msg AND 0x7FFF) = 2 ^ 15 * (client mod 2) + length msg"
proof -
  have m: "(0x7FFF :: nat) = mask 15" by (simp add: mask_eq_exp_minus_1)
  have l: "length msg AND 0x7FFF = length msg"
    using assms unfolding m by (simp only: take_bit_eq_mask [symmetric] take_bit_nat_eq_self)
  have "\<not> bit (push_bit 15 (client AND 1)) n \<or> \<not> bit (length msg) n" for n
  proof (cases "n < 15")
    case False
    then have "(2 :: nat) ^ 15 \<le> 2 ^ n" by (intro power_increasing) simp_all
    then have "length msg div 2 ^ n = 0" using assms by simp
    then show ?thesis by (simp add: bit_iff_odd)
  qed (simp add: bit_push_bit_iff)
  then have "push_bit 15 (client AND 1) + length msg = push_bit 15 (client AND 1) OR length msg"
    by (rule disjunctive_add)
  then show ?thesis unfolding l by (simp add: push_bit_eq_mult and_one_eq)
qed

lemma framing_fields:
  assumes "length msg < 2 ^ 15"
  shows "unat (drop_bit 15 (framing msg client)) = client mod 2" and "unat (framing msg client AND 0x7FFF) = length msg"
    and "pack_H (push_bit 15 (client AND 1) OR (length msg AND 0x7FFF)) = Some (le16 (framing msg client))"
proof -
  let ?k = "2 ^ 15 * (client mod 2) + length msg"
  have k: "?k < 2 ^ 16" using assms by simp
  have f: "framing msg client = of_nat ?k" by (simp only: framing_def framing_nat [OF assms])
  have u: "unat (framing msg client) = ?k"
    unfolding f using k by (simp add: unat_of_nat del: of_nat_add of_nat_mult)
  show "unat (drop_bit 15 (framing msg client)) = client mod 2"
    using assms by (simp only: unat_drop_bit_eq u) (simp add: drop_bit_eq_div)
  have "(0x7FFF :: u16) = mask 15" by (simp add: mask_eq_exp_minus_1)
  then have "unat (framing msg client AND 0x7FFF) = take_bit 15 ?k"
    by (simp only: take_bit_eq_mask [symmetric] unsigned_take_bit_eq u)
  then show "unat (framing msg client AND 0x7FFF) = length msg" using assms by (simp add: take_bit_eq_mod)
  show "pack_H (push_bit 15 (client AND 1) OR (length msg AND 0x7FFF)) = Some (le16 (framing msg client))"
    using k by (simp only: framing_nat [OF assms] f pack_H_def if_True)
qed

definition framed :: "nat \<times> u8 list \<Rightarrow> u8 list" where
  "framed x = le16 (framing (snd x) (fst x)) @ snd x"

lemma seed_frame_eq: "length msg < 2 ^ 15 \<Longrightarrow> seed_frame msg client = Some (framed (client, msg))"
  unfolding seed_frame_def framing_fields(3) by (simp add: framed_def)

lemma seed_frames_eq:
  assumes "\<forall>x \<in> set ms. length (snd x) < 2 ^ 15"
  shows "seed_frames ms out = Some (out @ concat (map framed ms))"
  using assms
proof (induction ms arbitrary: out)
  case (Cons x ms)
  then show ?case by (cases x) (simp add: seed_frame_eq)
qed simp

text \<open>No field of a seed is out of range: the three tables are written in full.\<close>

lemma seeds_written:
  "\<exists>t. seeds = Some t \<and> length t = 14" "\<exists>t. frame_seeds = Some t \<and> length t = 5" "\<exists>t. resp_seeds = Some t \<and> length t = 3"
  by (simp_all add: seeds_def frame_seeds_def resp_seeds_def seed_claim_def seed_one_def seed_make_def seed_frames_eq
      seed_dgram_def seed_hdr_layout seed_op_layout seed_rhdr_def pack_defs bytes_of_string_def Let_def const_defs
      del: seed_frames.simps)

lemma fuzz_msg_loop_framed:
  assumes "\<forall>x \<in> set ms. sizeof_hdr \<le> length (snd x) \<and> length (snd x) \<le> sizeof_hdr + SPIPROXY_MSG_MAX"
  shows "fuzz_msg_loop B (pre @ concat (map framed ms)) (length pre) s = enqueue_msgs B ms s"
  using assms
proof (induction ms arbitrary: pre s)
  case Nil
  then show ?case by (simp add: fuzz_msg_loop.simps)
next
  case (Cons x ms)
  obtain client msg where x: "x = (client, msg)" by (cases x)
  define data where "data = pre @ concat (map framed (x # ms))"
  let ?off = "length pre" and ?f = "framing msg client"
  have len: "sizeof_hdr \<le> length msg" "length msg \<le> sizeof_hdr + SPIPROXY_MSG_MAX" using Cons.prems x by simp_all
  then have l15: "length msg < 2 ^ 15" by (simp add: const_defs)
  note ff = framing_fields [OF l15, of client]
  have d: "data = pre @ le16 ?f @ msg @ concat (map framed ms)" by (simp add: data_def x framed_def)
  have f: "un_le16 (data ! ?off) (data ! (?off + 1)) = ?f"
    unfolding d by (simp add: nth_append le16_def)
  have n: "min (unat (?f AND 0x7FFF)) (length data - (?off + 2)) = length msg"
    unfolding d ff by (simp add: le16_def)
  have body: "drop (?off + 2) data = msg @ concat (map framed ms)" unfolding d by (simp add: le16_def)
  let ?h = "(dec_hdr (take sizeof_hdr msg))\<lparr>h_len := of_nat (length msg - sizeof_hdr)\<rparr>"
  have hl: "unat (h_len ?h) = length msg - sizeof_hdr" using len by (simp add: unat_of_nat const_defs del: of_nat_diff)
  have "drop (?off + 2 + sizeof_hdr) data = drop sizeof_hdr msg @ concat (map framed ms)"
    using body len(1) by (simp only: drop_drop [symmetric] add.commute [of _ sizeof_hdr]) simp
  then have e: "enqueue B c ?h (drop (?off + 2 + sizeof_hdr) data) s = enqueue B c ?h (drop sizeof_hdr msg) s" for c
    using enqueue_take [of ?h "drop (?off + 2 + sizeof_hdr) data" B c s] len hl by simp
  have ih: "fuzz_msg_loop B data (?off + 2 + length msg) s' = enqueue_msgs B ms s'" for s'
    using Cons.IH [of "pre @ framed x" s'] Cons.prems framed_def [of x] by (simp add: data_def x le16_def)
  have off: "?off + 2 \<le> length data" unfolding d by (simp add: le16_def)
  have th: "take sizeof_hdr (drop (?off + 2) data) = take sizeof_hdr msg" using len(1) by (simp only: body) simp
  have "fuzz_msg_loop B data ?off s = do {
      s \<leftarrow> enqueue B (fuzz_cl (client mod 2 mod FUZZ_NCLIENTS)) ?h (drop sizeof_hdr msg) s;
      fuzz_msg_loop B data (?off + 2 + length msg) s
    }"
    unfolding fuzz_msg_loop.simps [of B data ?off s] Let_def f n ff(1) th e min_absorb1 [OF len(2)]
    using len(1) off by simp
  then show ?case unfolding ih data_def [symmetric] by (simp add: x FUZZ_NCLIENTS_def)
qed



end
