(* ===== verification/Spi_Device.thy ===== *)
theory Spi_Device
  imports Samples
begin

text \<open>
  The frames of the SPI core as the device reads them. A frame is decoded into direction,
  23-bit address and value; a device is any kernel whose transfers follow the rule the source
  states: a write takes effect, and the answer to a read is clocked out during the next transfer.
  Shown: frames determine the access, reads collect the register addressed, writes are read back;
  and MMD numbers of 32 and more alias other registers.
\<close>

section \<open>Decoding\<close>

definition frame_write :: "u8 list \<Rightarrow> bool" where
  "frame_write tx = bit (tx ! 0) 7"

definition frame_addr :: "u8 list \<Rightarrow> u32" where
  "frame_addr tx =
     push_bit 16 (ucast (take_bit 7 (tx ! 0))) OR push_bit 8 (ucast (tx ! 1)) OR ucast (tx ! 2)"

definition be32 :: "u8 \<Rightarrow> u8 \<Rightarrow> u8 \<Rightarrow> u8 \<Rightarrow> u32" where
  "be32 a b c d = push_bit 24 (ucast a) OR push_bit 16 (ucast b) OR push_bit 8 (ucast c) OR ucast d"

definition frame_val :: "u8 list \<Rightarrow> u32" where
  "frame_val tx = be32 (tx ! 3) (tx ! 4) (tx ! 5) (tx ! 6)"

lemma addr_hi_mask: "w AND SPI_ADDR_HI_MASK = take_bit 7 w"
proof -
  have "SPI_ADDR_HI_MASK = mask 7" by (simp add: const_defs mask_eq_exp_minus_1)
  then show ?thesis by (simp only: take_bit_eq_mask)
qed

lemma bit_write_flag: "bit SPI_WRITE_FLAG n \<longleftrightarrow> n = 7"
proof -
  have "SPI_WRITE_FLAG = 2 ^ 7" by (simp add: const_defs)
  then have "bit SPI_WRITE_FLAG n \<longleftrightarrow> bit ((2::u32) ^ 7) n" by (simp only:)
  then show ?thesis by (auto simp: bit_exp_iff simp del: power_numeral)
qed

lemma spi_fill_nth:
  "spi_fill wr addr val ! 0 = ucast ((if wr then SPI_WRITE_FLAG else 0) OR take_bit 7 (drop_bit 16 addr))"
  "spi_fill wr addr val ! Suc 0 = ucast (drop_bit 8 addr)"
  "spi_fill wr addr val ! 2 = ucast addr"
  "spi_fill True addr val ! 3 = ucast (drop_bit 24 val)"
  "spi_fill True addr val ! 4 = ucast (drop_bit 16 val)"
  "spi_fill True addr val ! 5 = ucast (drop_bit 8 val)"
  "spi_fill True addr val ! 6 = ucast val"
  "length (spi_fill wr addr val) = 22"
  by (simp_all add: spi_fill_def Let_def SPI_BUF_MAX_def SPI_BYTES_def SPI_PAD_MAX_def nth_list_update addr_hi_mask)

lemma spi_fill_take: "spi_fill wr (take_bit 23 a) v = spi_fill wr a v"
proof -
  have "take_bit 7 (drop_bit 16 (take_bit 23 a)) = take_bit 7 (drop_bit 16 a)"
    "ucast (drop_bit 8 (take_bit 23 a)) = (ucast (drop_bit 8 a) :: u8)" "ucast (take_bit 23 a) = (ucast a :: u8)"
    by (auto intro!: bit_word_eqI simp: bit_simps)
  then show ?thesis by (simp only: spi_fill_def addr_hi_mask)
qed

lemma frame_write_fill: "7 \<le> n \<Longrightarrow> frame_write (take n (spi_fill wr addr val)) = wr"
  by (auto simp: frame_write_def spi_fill_nth bit_write_flag bit_simps)

lemma frame_addr_fill: "7 \<le> n \<Longrightarrow> frame_addr (take n (spi_fill wr addr val)) = take_bit 23 addr"
  unfolding frame_addr_def
  by (intro bit_word_eqI)
    (auto simp: spi_fill_nth bit_write_flag bit_simps less_diff_conv2 not_le not_less intro: ccontr)

lemma be32_bytes: "be32 (ucast (drop_bit 24 v)) (ucast (drop_bit 16 v)) (ucast (drop_bit 8 v)) (ucast v) = (v :: u32)"
  unfolding be32_def by (rule bit_word_eqI) (auto simp: bit_simps not_less intro: ccontr dest: bit_imp_le_length)

lemma frame_val_fill: "7 \<le> n \<Longrightarrow> frame_val (take n (spi_fill True addr val)) = val"
  by (simp add: frame_val_def spi_fill_nth be32_bytes)

text \<open>The fields of the address, for a slice below 4 and an MMD below 32.\<close>

lemma no_bit_above:
  assumes "unat (w :: u8) < 2 ^ k" and "k \<le> n"
  shows "\<not> bit w n"
proof -
  have "(2 :: nat) ^ k \<le> 2 ^ n" using assms(2) by (simp add: power_increasing)
  then have "unat w < 2 ^ n" using assms(1) by linarith
  then have "\<not> bit (unat w) n" by (simp add: bit_iff_odd)
  then show ?thesis by (simp add: bit_unsigned_iff possible_bit_def)
qed

definition addr_slice :: "u32 \<Rightarrow> u8" where
  "addr_slice a = ucast (drop_bit 21 (take_bit 23 a))"

definition addr_mmd :: "u32 \<Rightarrow> u8" where
  "addr_mmd a = ucast (take_bit 5 (drop_bit 16 a))"

definition addr_reg :: "u32 \<Rightarrow> u16" where
  "addr_reg a = ucast a"

lemma addr_fields_take [simp]:
  "addr_slice (take_bit 23 a) = addr_slice a" "addr_mmd (take_bit 23 a) = addr_mmd a"
  "addr_reg (take_bit 23 a) = addr_reg a"
  by (auto intro!: bit_word_eqI simp: addr_slice_def addr_mmd_def addr_reg_def bit_simps)

lemma addr_reg_addr: "addr_reg (spi_addr sl mmd reg) = reg"
  unfolding addr_reg_def spi_addr_def by (rule bit_word_eqI) (auto simp: bit_simps const_defs)

lemma addr_mmd_addr:
  assumes "unat mmd < 32"
  shows "addr_mmd (spi_addr sl mmd reg) = mmd"
proof -
  have mmd: "n < 5" if "bit mmd n" for n using no_bit_above [of mmd 5 n] assms that by fastforce
  have reg: "n < 16" if "bit reg n" for n using that by (auto dest: bit_imp_le_length)
  show ?thesis
    unfolding addr_mmd_def spi_addr_def
    by (rule bit_word_eqI) (auto simp: bit_simps const_defs dest: mmd reg)
qed

lemma addr_slice_addr:
  assumes "unat sl < 4" and "unat mmd < 32"
  shows "addr_slice (spi_addr sl mmd reg) = sl"
proof -
  have sl: "n < 2" if "bit sl n" for n using no_bit_above [of sl 2 n] assms(1) that by fastforce
  have mmd: "n < 5" if "bit mmd n" for n using no_bit_above [of mmd 5 n] assms(2) that by fastforce
  have reg: "n < 16" if "bit reg n" for n using that by (auto dest: bit_imp_le_length)
  show ?thesis
    unfolding addr_slice_def spi_addr_def
    by (rule bit_word_eqI) (auto simp: bit_simps const_defs dest: sl mmd reg)
qed

section \<open>A device that stores registers\<close>

text \<open>
  \<open>regs\<close> is what the device holds at each 23-bit address, \<open>pend\<close> the answer it clocks out in the
  next transfer; the device ignores the passing of time.
\<close>

definition spi_device :: "'w kernel \<Rightarrow> ('w \<Rightarrow> u32 \<Rightarrow> u32) \<Rightarrow> ('w \<Rightarrow> u32) \<Rightarrow> bool" where
  "spi_device K regs pend \<longleftrightarrow>
     (\<forall>tx f w rc rx w'. SPI_BYTES \<le> length tx \<longrightarrow> k_spi K tx f w = ((rc, rx), w') \<longrightarrow>
        1 \<le> rc \<and> be32 (rx 3) (rx 4) (rx 5) (rx 6) = pend w \<and>
        regs w' = (if frame_write tx then (regs w)(frame_addr tx := frame_val tx) else regs w) \<and>
        (\<not> frame_write tx \<longrightarrow> pend w' = regs w (frame_addr tx))) \<and>
     (\<forall>w. regs (snd (k_clock K w)) = regs w)"

lemma spi_deviceD:
  assumes "spi_device K regs pend" and "k_spi K (take n (spi_fill wr a v)) f w = ((rc, rx), w')" and "SPI_BYTES \<le> n"
  shows "1 \<le> rc" and "be32 (rx 3) (rx 4) (rx 5) (rx 6) = pend w"
    and "regs w' = (if wr then (regs w)(take_bit 23 a := v) else regs w)"
    and "\<not> wr \<Longrightarrow> pend w' = regs w (take_bit 23 a)"
proof -
  let ?tx = "take n (spi_fill wr a v)"
  have n: "7 \<le> n" "SPI_BYTES \<le> length ?tx" using assms(3) by (simp_all add: spi_fill_nth const_defs)
  have "1 \<le> rc \<and> be32 (rx 3) (rx 4) (rx 5) (rx 6) = pend w \<and>
      regs w' = (if frame_write ?tx then (regs w)(frame_addr ?tx := frame_val ?tx) else regs w) \<and>
      (\<not> frame_write ?tx \<longrightarrow> pend w' = regs w (frame_addr ?tx))"
    using assms(1,2) n(2) unfolding spi_device_def by blast
  then show "1 \<le> rc" and "be32 (rx 3) (rx 4) (rx 5) (rx 6) = pend w"
    and "regs w' = (if wr then (regs w)(take_bit 23 a := v) else regs w)"
    and "\<not> wr \<Longrightarrow> pend w' = regs w (take_bit 23 a)"
    using frame_val_fill [OF n(1), of a v] by (auto simp: frame_write_fill [OF n(1)] frame_addr_fill [OF n(1)])
qed

lemma device_write:
  assumes "spi_device K regs pend" and "spi_write_reg K sl mmd reg v s = (ok, s')"
  shows "ok" and "regs (world s') = (regs (world s))(take_bit 23 (spi_addr sl mmd reg) := v)"
proof -
  obtain rc rx w where k: "k_spi K (take SPI_BYTES (spi_fill True (spi_addr sl mmd reg) v)) (freq s) (world s) = ((rc, rx), w)"
    by (metis surj_pair)
  note d = spi_deviceD [OF assms(1) k]
  show "ok" "regs (world s') = (regs (world s))(take_bit 23 (spi_addr sl mmd reg) := v)"
    using assms(2) d(1,3) by (auto simp: spi_write_reg_def k Let_def)
qed

lemma device_read:
  assumes "spi_device K regs pend" and "spi_read_reg K R sl mmd reg s = (r, s')"
  shows "r = Some (regs (world s) (take_bit 23 (spi_addr sl mmd reg)))" and "regs (world s') = regs (world s)"
proof -
  let ?n = "SPI_BYTES + pad s"
  obtain rc0 rx0 w0 where k0: "k_spi K (take ?n (spi_fill False (spi_addr sl mmd reg) 0)) (freq s) (world s) = ((rc0, rx0), w0)"
    by (metis surj_pair)
  obtain rc1 rx1 w1 where k1: "k_spi K (take ?n (spi_fill False (spi_addr sl MMD_GLOBAL (DEVICE_ID_REG R)) 0)) (freq s) w0 =
      ((rc1, rx1), w1)"
    by (metis surj_pair)
  note d = spi_deviceD [OF assms(1) k0] spi_deviceD [OF assms(1) k1]
  show "r = Some (regs (world s) (take_bit 23 (spi_addr sl mmd reg)))" "regs (world s') = regs (world s)"
    using assms(2) d by (auto simp: spi_read_reg_def k0 k1 Let_def be32_def)
qed

lemma device_clocked:
  "spi_device K regs pend \<Longrightarrow> clocked_world (hw_build K R) (\<lambda>w. regs w = r)"
  by unfold_locales (simp add: spi_device_def)

lemma device_op:
  assumes d: "spi_device K regs pend" and "unat (o_slice p) < SLICE_COUNT" and "\<not> (mb_inflight s \<and> in_mb_guard p \<and> c \<noteq> None)"
  defines "a \<equiv> take_bit 23 (spi_addr (o_slice p) (o_mmd p) (o_reg p))"
  shows "\<exists>s'. exec_op (hw_build K R) c p s =
      Some (SPIPROXY_OK, if o_write p \<noteq> 0 then p else p\<lparr>o_val := regs (world s) a\<rparr>, s') \<and>
    regs (world s') = (if o_write p \<noteq> 0 then (regs (world s))(a := o_val p) else regs (world s)) \<and> mb_inflight s' = mb_inflight s"
proof -
  obtain ok p1 s1 where b: "bus_access (hw_build K R) p s = (ok, p1, s1)" by (cases "bus_access (hw_build K R) p s")
  have ok: "ok" "p1 = (if o_write p \<noteq> 0 then p else p\<lparr>o_val := regs (world s) a\<rparr>)"
    "regs (world s1) = (if o_write p \<noteq> 0 then (regs (world s))(a := o_val p) else regs (world s))"
    using b unfolding a_def
    by (auto simp: bus_access_def Let_def dest: device_write [OF d] device_read [OF d]
        split: if_splits prod.splits option.splits)
  have "mb_inflight s1 = mb_inflight s" using hw.bus_access_io [OF b] by (simp add: io_frame_iff)
  with clocked_world.exec_op_world [OF device_clocked [OF d] assms(2,3) b refl] ok show ?thesis
    by (auto simp: io_frame_iff)
qed

section \<open>A device on which the theorems are applied\<close>

definition byte_of :: "u32 \<Rightarrow> nat \<Rightarrow> u8" where
  "byte_of v i = ucast (drop_bit (8 * (6 - i)) v)"

definition mem_kernel :: "((u32 \<Rightarrow> u32) \<times> u32) kernel" where
  "mem_kernel = sample_kernel\<lparr>k_spi := (\<lambda>tx f (r, p). ((7, byte_of p),
     if frame_write tx then (r(frame_addr tx := frame_val tx), p) else (r, r (frame_addr tx))))\<rparr>"

lemma mem_kernel_device: "spi_device mem_kernel fst snd"
  unfolding spi_device_def mem_kernel_def sample_kernel_def
  by (auto simp: byte_of_def be32_bytes split: if_splits)

section \<open>Properties\<close>

text \<open>
  The device decodes from a frame exactly the access the daemon meant: direction, slice, MMD,
  register and, for writes, the value, whatever the padding; for slices below 4 and MMD numbers
  below 32.
\<close>

lemma spi_frame_decodes:
  assumes "unat sl < SLICE_COUNT" and "unat mmd < 32"
  shows "let tx = take (SPI_BYTES + k) (spi_fill wr (spi_addr sl mmd reg) v); a = frame_addr tx
    in frame_write tx = wr \<and> addr_slice a = sl \<and> addr_mmd a = mmd \<and> addr_reg a = reg \<and> (wr \<longrightarrow> frame_val tx = v)"
proof -
  have n: "7 \<le> SPI_BYTES + k" by (simp add: const_defs)
  show ?thesis
    using assms frame_val_fill [OF n]
    by (auto simp: Let_def frame_write_fill [OF n] frame_addr_fill [OF n] addr_slice_addr addr_mmd_addr addr_reg_addr
        SLICE_COUNT_def)
qed



text \<open>
  C38. The mailbox guard can be passed: MMD number 0x9E is not checked and has the same SPI frames
  as the mailbox's MMD 0x1E. While a transaction is in flight, a write into the mailbox range
  under MMD 0x1E is refused, and the same write under MMD 0x9E is performed, exactly as if the
  guard were absent.
\<close>

theorem mmd_alias_passes_guard:
  assumes "mb_inflight s" and "in_mb_guard p" and "o_write p \<noteq> 0" and "unat (o_slice p) < SLICE_COUNT"
  shows "exec_op (hw_build K R) (Some c) p s = Some (SPIPROXY_EBUSY, p, s) \<and>
    (\<exists>ok s1 s2. spi_write_reg K (o_slice p) MMD_GLOBAL (o_reg p) (o_val p) s = (ok, s1) \<and>
      exec_op (hw_build K R) (Some c) (p\<lparr>o_mmd := 0x9E\<rparr>) s =
        Some (if ok then SPIPROXY_OK else SPIPROXY_EIO, p\<lparr>o_mmd := 0x9E\<rparr>, s2) \<and> io_frame s1 s2)"
proof -
  let ?p = "p\<lparr>o_mmd := 0x9E\<rparr>"
  have "take_bit 23 (spi_addr (o_slice p) 0x9E r) = take_bit 23 (spi_addr (o_slice p) MMD_GLOBAL r)" for r
    unfolding spi_addr_def take_bit_or by (simp add: const_defs)
  then have fill: "spi_fill wr (spi_addr (o_slice p) 0x9E r) v = spi_fill wr (spi_addr (o_slice p) MMD_GLOBAL r) v" for wr r v
    by (metis spi_fill_take)
  obtain ok s1 where w: "spi_write_reg K (o_slice p) MMD_GLOBAL (o_reg p) (o_val p) s = (ok, s1)" by fastforce
  have "bus_access (hw_build K R) ?p s = (ok, ?p, s1)"
    using assms(3) w by (simp add: bus_access_def spi_write_reg_def fill)
  from hw.exec_op_bus [OF _ _ this, of "Some c"] assms w show ?thesis
    by (auto simp: exec_op_def in_mb_guard_def not_le const_defs)
qed

theorem mmd_alias_passes_guard_witness:
  "\<exists>s2. exec_op sample_hw (Some 0) (sample_op 1 MMD_GLOBAL 0xda00 0) ((connected_daemon ())\<lparr>mb_inflight := True\<rparr>) =
      Some (SPIPROXY_EBUSY, sample_op 1 MMD_GLOBAL 0xda00 0, (connected_daemon ())\<lparr>mb_inflight := True\<rparr>) \<and>
    exec_op sample_hw (Some 0) (sample_op 1 0x9E 0xda00 0) ((connected_daemon ())\<lparr>mb_inflight := True\<rparr>) =
      Some (SPIPROXY_OK, sample_op 1 0x9E 0xda00 0, s2)"
  using mmd_alias_passes_guard [of "(connected_daemon ())\<lparr>mb_inflight := True\<rparr>" "sample_op 1 MMD_GLOBAL 0xda00 0"
      sample_kernel sample_regs 0]
  by (auto simp: sample_op_def in_mb_guard_def const_defs spi_write_reg_def sample_kernel_def)

end
