(* ===== verification/Mailbox_Guard.thy ===== *)
theory Mailbox_Guard
  imports Spi_Device
begin

text \<open>
  What the mailbox guard achieves on the wire. The kernel is wrapped so that the outside world
  also records every SPI frame (\<open>spied\<close>); the requests that the scheduler runs while a mailbox
  transaction waits then send no frame into the mailbox range.
\<close>

definition spied :: "'w kernel \<Rightarrow> ('w \<times> u8 list list) kernel" where
  "spied K =
     \<lparr>k_clock = (\<lambda>(w, fs). let (t, w) = k_clock K w in (t, (w, fs))),
      k_usleep = (\<lambda>d (w, fs). (k_usleep K d w, fs)),
      k_send = (\<lambda>fd m (w, fs). let (rc, w) = k_send K fd m w in (rc, (w, fs))),
      k_spi = (\<lambda>tx f (w, fs). let (r, w) = k_spi K tx f w in (r, (w, fs @ [tx]))),
      k_gpio = (\<lambda>fd b (w, fs). let (rc, w) = k_gpio K fd b w in (rc, (w, fs))),
      k_stack_pkt = (\<lambda>(w, fs). k_stack_pkt K w), k_stack_v = (\<lambda>(w, fs). k_stack_v K w)\<rparr>"

definition mb_addr :: "u8 \<Rightarrow> u16 \<Rightarrow> bool" where
  "mb_addr mmd reg \<longleftrightarrow> mmd = MMD_GLOBAL \<and> MB_GUARD_LO \<le> reg \<and> reg \<le> MB_GUARD_HI"

definition mb_frame :: "u8 list \<Rightarrow> bool" where
  "mb_frame tx \<longleftrightarrow> mb_addr (addr_mmd (frame_addr tx)) (addr_reg (frame_addr tx))"

definition silent_since :: "u8 list list \<Rightarrow> 'w \<times> u8 list list \<Rightarrow> bool" where
  "silent_since fs w \<longleftrightarrow> (\<exists>gs. snd w = fs @ gs \<and> (\<forall>f \<in> set gs. \<not> mb_frame f))"

lemma mb_frame_fill:
  "SPI_BYTES \<le> n \<Longrightarrow> unat mmd < 32 \<Longrightarrow> mb_frame (take n (spi_fill wr (spi_addr sl mmd reg) v)) = mb_addr mmd reg"
  by (simp add: mb_frame_def frame_addr_fill addr_mmd_addr addr_reg_addr SPI_BYTES_def)

lemma silent_append: "silent_since fs (w, gs) \<Longrightarrow> \<forall>f \<in> set hs. \<not> mb_frame f \<Longrightarrow> silent_since fs (w', gs @ hs)"
  by (auto simp: silent_since_def)

lemma spied_spi: "k_spi (spied K) tx f (w, fs) = (let (r, w) = k_spi K tx f w in (r, (w, fs @ [tx])))"
  by (simp add: spied_def)

lemma spied_guarded:
  assumes "\<not> mb_addr MMD_GLOBAL (DEVICE_ID_REG R)"
  shows "guarded_world (hw_build (spied K) R) (silent_since fs) (\<lambda>mmd. unat mmd < 32)"
proof unfold_locales
  have g: "unat MMD_GLOBAL < 32" by (simp add: const_defs)
  fix s :: "('a \<times> u8 list list) daemon" and mmd sl :: u8 and reg :: u16 and v :: u32
  assume P: "silent_since fs (world s)" and m: "unat mmd < 32"
    and "\<not> (mmd = MMD_GLOBAL \<and> MB_GUARD_LO \<le> reg \<and> reg \<le> MB_GUARD_HI)"
  then have a: "\<not> mb_addr mmd reg" by (simp add: mb_addr_def)
  show "silent_since fs (world (snd (b_write_reg (hw_build (spied K) R) sl mmd reg v s)))"
    using P a m
    by (cases "world s") (auto simp: spi_write_reg_def spied_spi mb_frame_fill Let_def intro!: silent_append split: prod.splits)
  show "silent_since fs (world (snd (b_read_reg (hw_build (spied K) R) sl mmd reg s)))"
    using P a m assms
    by (cases "world s") (auto simp: spi_read_reg_def spied_spi mb_frame_fill g Let_def intro!: silent_append split: prod.splits)
qed (auto simp: silent_since_def spied_def split: prod.splits)

text \<open>A state in flight with a READ of another register queued.\<close>

definition guarded_read :: "(unit \<times> u8 list list) daemon" where
  "guarded_read = (queued SPIPROXY_READ (enc_op (sample_op 0 1 2 0)) ((), []))\<lparr>mb_inflight := True\<rparr>"

lemma guarded_read_facts:
  "sched_ok guarded_read [1..<MAX_QITEMS] one_queued []" "daemon_ok guarded_read" "mb_inflight guarded_read"
  "rst_fd guarded_read < 0" "\<forall>i \<in> set_mset (qset one_queued). harmless (\<lambda>mmd. unat mmd < 32) i guarded_read"
  "claim_owner guarded_read = None" "type_of_code (h_type (q_hdr (pool guarded_read 0))) \<noteq> Some SPIPROXY_MAILBOX"
proof -
  let ?b = "enc_op (sample_op 0 1 2 0)"
  have l: "length ?b \<le> SPIPROXY_MSG_MAX" "length ?b = sizeof_op" by (simp_all add: opf.length_enc const_defs)
  note f = queued_facts [OF l(1), where ty = SPIPROXY_READ and w = "((), []) :: unit \<times> u8 list list"]
    queued_type [OF l(1), where ty = SPIPROXY_READ and w = "((), []) :: unit \<times> u8 list list"]
  show "sched_ok guarded_read [1..<MAX_QITEMS] one_queued []" "daemon_ok guarded_read" "mb_inflight guarded_read"
    "rst_fd guarded_read < 0" "claim_owner guarded_read = None"
    "type_of_code (h_type (q_hdr (pool guarded_read 0))) \<noteq> Some SPIPROXY_MAILBOX"
    using f by (simp_all add: guarded_read_def)
  have "read_body 0 0 sizeof_op guarded_read = ?b" "body_len 0 guarded_read = sizeof_op"
    using f(6,7) l(2) by (simp_all add: guarded_read_def read_body_def body_len_def request_def sizeof_op_def)
  then show "\<forall>i \<in> set_mset (qset one_queued). harmless (\<lambda>mmd. unat mmd < 32) i guarded_read"
    using f(13)
    by (auto simp: qset_def one_queued_def harmless_def plain_item_def sizeof_op_def sample_op_def opf.dec_enc guarded_read_def)
qed

text \<open>
  C5. Isolation of the mailbox: while a transaction is in flight, running the queues puts no frame
  into the mailbox range on the wire, whatever the requests are, as long as none of them is a
  mailbox request, their MMD numbers are below 32 and the daemon has no reset line; and the
  transaction is still in flight afterwards. (The register the daemon reads as a dummy,
  DEVICE_ID, lies outside the mailbox range.)
\<close>

theorem drain_spares_mailbox:
  assumes "sched_ok s F Q L" and "daemon_ok s" and "mb_inflight s" and "rst_fd s < 0"
    and "\<forall>i \<in> set_mset (qset Q). harmless (\<lambda>mmd. unat mmd < 32) i s"
    and "\<not> mb_addr MMD_GLOBAL (DEVICE_ID_REG R)"
    and "drain_queues n (hw_build (spied K) R) b s = Some (Ran s')"
  shows "\<exists>gs. snd (world s') = snd (world s) @ gs \<and> (\<forall>f \<in> set gs. \<not> mb_frame f) \<and> mb_inflight s'"
proof -
  have "silent_since (snd (world s)) (world s)" by (simp add: silent_since_def)
  from guarded_world.drain_keeps_P [OF spied_guarded [OF assms(6)] assms(1,2) this assms(3-5), where n = n and b = b] assms(7)
  show ?thesis by (auto simp: returns_iff silent_since_def)
qed

theorem drain_spares_mailbox_witness:
  "\<exists>s' gs. drain_queues 3 (hw_build (spied sample_kernel) sample_regs) 1 guarded_read = Some (Ran s') \<and>
      snd (world s') = snd (world guarded_read) @ gs \<and> (\<forall>f \<in> set gs. \<not> mb_frame f) \<and> mb_inflight s'"
proof -
  have dev: "\<not> mb_addr MMD_GLOBAL (DEVICE_ID_REG sample_regs)" by (simp add: mb_addr_def sample_regs_def const_defs)
  obtain s' where d: "drain_queues 3 (hw_build (spied sample_kernel) sample_regs) 1 guarded_read = Some (Ran s')"
    using hw.one_drained [OF guarded_read_facts(1,2,6,7)] by blast
  from drain_spares_mailbox [OF guarded_read_facts(1-5) dev d] d show ?thesis by blast
qed

end
