(* ===== verification/Claiming.thy ===== *)
theory Claiming
  imports Mailbox_Guard
begin

text \<open>
  What a claim gives its owner: while it lasts, running the queues puts no other client's register
  access on the wire; when it ends abnormally, the cleanup operations run, all of them and in
  order. And its limit: a hardware reset is not held back by another client's claim.
\<close>

section \<open>Exclusion\<close>

text \<open>A property of the outside world that also the reset line leaves alone.\<close>

locale pulsing_world = sending_world B P for B :: "'w build" and P +
  assumes P_pulse: "P (world s) \<Longrightarrow> P (world (b_pulse_reset B a d s))"
begin

lemma in_P_pulse_reset:
  assumes "in_P s"
  shows "returns (exec_reset B it s) in_P"
proof -
  have "in_P (b_pulse_reset B a d (s\<lparr>mb_inflight := False\<rparr>))" for a d
    using P_pulse [of "s\<lparr>mb_inflight := False\<rparr>"] assms by (simp add: in_P_def)
  with assms show ?thesis
    by (auto simp: exec_reset_def wp_simps Let_def intro!: in_P_send_resp in_P_log)
qed

lemma foreign_item_keeps_P:
  assumes "item_eligible s it" and "claim_owner s = Some ow" and "q_c (pool s it) \<noteq> ow" and "P (world s)"
  shows "returns (exec_item W B it s) (\<lambda>r. \<exists>s'. r = Ran s' \<and> P (world s'))"
proof -
  let ?t = "h_type (q_hdr (pool s it))"
  have ty: "?t \<noteq> type_code SPIPROXY_MAILBOX" "type_code SPIPROXY_CLAIM \<le> ?t"
    using assms(1-3) by (auto simp: item_eligible_def)
  then have nt: "type_of_code ?t \<notin> {Some SPIPROXY_READ, Some SPIPROXY_WRITE, Some SPIPROXY_BATCH, Some SPIPROXY_MAILBOX}"
    by (auto simp: type_of_code_eq_iff word_le_nat_alt)
  have e: "in_P (enter_item it s)" using assms(4) by (simp add: in_P_upd) (simp add: in_P_def)
  have r: "returns (ran m) (\<lambda>r. \<exists>s'. r = Ran s' \<and> P (world s'))" if "returns m in_P" for m
    using that by (auto simp: returns_iff ran_def in_P_def)
  show ?thesis
    using nt e unfolding exec_item_def Let_def
    by (auto split: option.split spiproxy_type.split
        intro!: r in_P_claim in_P_release in_P_stats in_P_trace in_P_pulse_reset in_P_send_resp)
qed

lemma item_eligible_cong:
  "claim_owner s' = claim_owner s \<Longrightarrow> stable s s' \<Longrightarrow> item_eligible s' = item_eligible s"
  by (simp add: item_eligible_def fun_eq_iff stable_tags)

lemma foreign_turn:
  assumes ok: "sched_ok s F Q L" "daemon_ok s" and ow: "claim_owner s = Some ow"
    and c: "\<forall>i \<in> set_mset (qset Q). q_c (pool s i) \<noteq> ow" and P: "P (world s)"
    and p: "pick_spec (item_eligible s) Q [0, 1, 2] = Some (q, it)"
  obtains s1 s2 where "dequeue s = Some (Some (it, s1))" and "exec_item W B it s1 = Some (Ran s2)"
    and "sched_ok (free_item it s2) (it # F) (Q(q := remove1 it (Q q))) L" and "daemon_ok (free_item it s2)"
    and "P (world (free_item it s2))" and "claim_of (free_item it s2) = claim_of s"
    and "item_eligible (free_item it s2) = item_eligible s"
    and "\<forall>i \<in> set_mset (qset (Q(q := remove1 it (Q q)))). q_c (pool (free_item it s2) i) \<noteq> ow"
proof -
  let ?Q = "Q(q := remove1 it (Q q))"
  from pick_spec_mem [OF p] have q: "q < 3" "it \<in> set (Q q)" "item_eligible s it" by auto
  have Q: "add_mset it (qset ?Q) = qset Q" using q(1,2) by (rule qset_remove1)
  then have cit: "q_c (pool s it) \<noteq> ow" using c by (metis union_single_eq_member)
  then have ty: "type_of_code (h_type (q_hdr (pool s it))) \<noteq> Some SPIPROXY_MAILBOX"
    using q(3) ow by (auto simp: item_eligible_def type_of_code_eq_iff)
  obtain s1 s2 where
    d: "dequeue s = Some (Some (it, s1))" and r: "relinked s s1" and "daemon_ok s1"
    and x: "exec_item W B it s1 = Some (Ran s2)" and a: "answers it s1 s2" and r3: "relinked s2 (free_item it s2)"
    and s3: "sched_ok (free_item it s2) (it # F) ?Q L" and st: "stable s (free_item it s2)"
    by (rule plain_turn [OF ok p ty, of W]) (rule that)
  let ?s = "free_item it s2"
  have st1: "stable s s1" using relinked_stable [OF r] by simp
  have own1: "claim_owner s1 = Some ow" "item_eligible s1 it" "q_c (pool s1 it) \<noteq> ow" "P (world s1)"
    using relinked_owner [OF r] relinked_world [OF r] ow P item_eligible_cong [OF _ st1] q(3) cit stable_tags [OF st1]
    by simp_all
  with foreign_item_keeps_P [of s1 it ow] x have "P (world ?s)"
    using relinked_world [OF r3] by (auto simp: returns_iff)
  moreover have cl: "claim_of ?s = claim_of s"
    using a own1 relinked_claim [OF r] relinked_claim [OF r3] by (simp add: answers_def)
  moreover have "item_eligible ?s = item_eligible s"
    using cl by (intro item_eligible_cong [OF _ st]) (simp add: claim_of_def)
  moreover have "\<forall>i \<in> set_mset (qset ?Q). q_c (pool ?s i) \<noteq> ow"
    using c stable_tags [OF st] Q by (metis union_iff add_mset_add_single)
  ultimately show thesis using that [OF d x s3] st ok(2) by (auto simp: stable_def)
qed

lemma drain_foreign:
  assumes "sched_ok s F Q L" and "daemon_ok s" and "claim_owner s = Some ow"
    and "\<forall>i \<in> set_mset (qset Q). q_c (pool s i) \<noteq> ow" and "P (world s)" and "b < n"
  shows "\<exists>s' F' Q'. drain_queues n B b s = Some (Ran s') \<and> sched_ok s' F' Q' L \<and> claim_of s' = claim_of s \<and> P (world s') \<and>
    (\<forall>q < 3. filter (\<lambda>i. \<not> item_eligible s i) (Q' q) = filter (\<lambda>i. \<not> item_eligible s i) (Q q))"
  using assms
proof (induction n arbitrary: s F Q b)
  case 0
  then show ?case by simp
next
  case (Suc n)
  show ?case
  proof (cases "b = 0 \<or> dequeue s = Some None")
    case True
    then have "drain_queues (Suc n) B b s = Some (Ran s)" by auto
    with Suc.prems show ?thesis by blast
  next
    case False
    with dequeue_holds [OF Suc.prems(1)] obtain q it where p: "pick_spec (item_eligible s) Q [0, 1, 2] = Some (q, it)"
      by (auto simp: holds_iff split: option.splits)
    obtain s1 s2 where d: "dequeue s = Some (Some (it, s1))" and x: "exec_item (mb_wait n B) B it s1 = Some (Ran s2)"
      and s2: "sched_ok (free_item it s2) (it # F) (Q(q := remove1 it (Q q))) L" "daemon_ok (free_item it s2)"
      and P: "P (world (free_item it s2))" and cl: "claim_of (free_item it s2) = claim_of s"
      and e: "item_eligible (free_item it s2) = item_eligible s"
      and c: "\<forall>i \<in> set_mset (qset (Q(q := remove1 it (Q q)))). q_c (pool (free_item it s2) i) \<noteq> ow"
      by (rule foreign_turn [OF Suc.prems(1-5) p, of "mb_wait n B"]) (rule that)
    have "claim_owner (free_item it s2) = Some ow" "b - 1 < n"
      using cl Suc.prems(3,6) False by (auto simp: claim_of_def)
    from Suc.IH [OF s2 this(1) c P this(2)] obtain s' F' Q' where
      s': "drain_queues n B (b - 1) (free_item it s2) = Some (Ran s')" "sched_ok s' F' Q' L" "claim_of s' = claim_of s" "P (world s')"
      and f: "\<forall>k < 3. filter (\<lambda>i. \<not> item_eligible s i) (Q' k) = filter (\<lambda>i. \<not> item_eligible s i) ((Q(q := remove1 it (Q q))) k)"
      unfolding e cl by blast
    have "filter (\<lambda>i. \<not> item_eligible s i) (remove1 it (Q q)) = filter (\<lambda>i. \<not> item_eligible s i) (Q q)"
      using pick_spec_mem [OF p] by (simp add: filter_remove1 remove1_idem)
    with f have "\<forall>k < 3. filter (\<lambda>i. \<not> item_eligible s i) (Q' k) = filter (\<lambda>i. \<not> item_eligible s i) (Q k)" by simp
    moreover have "drain_queues (Suc n) B b s = Some (Ran s')" using False d x s'(1) by simp
    ultimately show ?thesis using s' by auto
  qed
qed

end

interpretation quiet_wire: pulsing_world "hw_build (spied K) R" "\<lambda>w. snd w = fs" for K :: "'w kernel" and R fs
  by unfold_locales (auto simp: spied_def gpio_pulse_reset_def gpio_set_def Let_def split: prod.splits)

text \<open>
  C9. A claim excludes the others: while a client holds the claim and only other clients' requests are
  queued, running the queues always finishes, puts no SPI frame on the wire, keeps the claim with
  its deadline and cleanup list, and leaves every request that touches registers or the mailbox
  queued, in its place.
\<close>

theorem claim_excludes_others:
  assumes "sched_ok s F Q L" and "daemon_ok s" and "claim_owner s = Some ow"
    and "\<forall>i \<in> set_mset (qset Q). q_c (pool s i) \<noteq> ow" and "b < n"
  shows "\<exists>s' F' Q'. drain_queues n (hw_build (spied K) R) b s = Some (Ran s') \<and> sched_ok s' F' Q' L \<and>
    snd (world s') = snd (world s) \<and> claim_of s' = claim_of s \<and>
    (\<forall>q < 3. filter (\<lambda>i. \<not> item_eligible s i) (Q' q) = filter (\<lambda>i. \<not> item_eligible s i) (Q q))"
  using quiet_wire.drain_foreign [OF assms(1-4) refl assms(5)] by metis

theorem claim_excludes_others_witness:
  "let s = (queued SPIPROXY_READ (enc_op (sample_op 0 1 2 0)) ((), []))\<lparr>claim_owner := Some 1\<rparr>
   in \<exists>s'. drain_queues 9 (hw_build (spied sample_kernel) sample_regs) 8 s = Some (Ran s') \<and>
     snd (world s') = snd (world s) \<and> claim_owner s' = Some 1"
proof -
  let ?b = "enc_op (sample_op 0 1 2 0)" and ?w = "((), []) :: unit \<times> u8 list list"
  let ?s = "(queued SPIPROXY_READ ?b ?w)\<lparr>claim_owner := Some 1\<rparr>"
  have l: "length ?b \<le> SPIPROXY_MSG_MAX" by (simp add: opf.length_enc const_defs)
  note f = queued_facts [OF l, where ty = SPIPROXY_READ and w = ?w]
  have r: "run_frame (queued SPIPROXY_READ ?b ?w) ?s" by simp
  then have s: "sched_ok ?s [1..<MAX_QITEMS] one_queued []" using f(2) run_frame_sched_ok by blast
  have ok: "daemon_ok ?s" using f(4) run_frame_daemon_ok [OF r] by (simp add: stable_def)

  have "\<forall>i \<in> set_mset (qset one_queued). q_c (pool ?s i) \<noteq> 1"
    using f(5) by (auto simp: qset_def one_queued_def)
  from claim_excludes_others [OF s ok _ this, of 8 9 sample_kernel sample_regs] show ?thesis
    by (auto simp: claim_of_def)
qed

section \<open>Cleanup\<close>

text \<open>What one operation does to the registers of a device; one on a slice the device lacks does nothing.\<close>

definition op_addr :: "spiproxy_op \<Rightarrow> u32" where
  "op_addr p = take_bit 23 (spi_addr (o_slice p) (o_mmd p) (o_reg p))"

definition op_effect :: "spiproxy_op \<Rightarrow> (u32 \<Rightarrow> u32) \<Rightarrow> u32 \<Rightarrow> u32" where
  "op_effect p r = (if unat (o_slice p) < SLICE_COUNT \<and> o_write p \<noteq> 0 then r(op_addr p := o_val p) else r)"

definition cleanup_ops :: "'w daemon \<Rightarrow> spiproxy_op list" where
  "cleanup_ops s = map (claim_cleanup s) [0..<claim_ncleanup s]"

lemma device_internal_op:
  assumes "spi_device K regs pend"
  shows "holds (exec_op (hw_build K R) None p s) (\<lambda>(st, p', s'). regs (world s') = op_effect p (regs (world s)) \<and> io_frame s s')"
proof (cases "unat (o_slice p) < SLICE_COUNT")
  case True
  with device_op [OF assms True, of s None R] hw.exec_op_holds [of K R None p s] show ?thesis
    by (auto simp: holds_iff op_effect_def op_addr_def)
next
  case False
  then show ?thesis by (simp add: exec_op_def wp_simps op_effect_def)
qed

lemma cleanup_loop_device:
  assumes "spi_device K regs pend" and "distinct is" and "\<forall>i \<in> set is. i < SPIPROXY_BATCH_MAX"
  shows "holds (cleanup_loop (hw_build K R) is s) (\<lambda>s'. regs (world s') = fold op_effect (map (claim_cleanup s) is) (regs (world s)))"
  using assms(2,3)
proof (induction "is" arbitrary: s)
  case Nil
  then show ?case by (simp add: wp_simps)
next
  case (Cons i "is")
  have "holds (cleanup_loop (hw_build K R) is (s1\<lparr>claim_cleanup := (claim_cleanup s1)(i := p)\<rparr>))
      (\<lambda>s'. regs (world s') = fold op_effect (map (claim_cleanup s) (i # is)) (regs (world s)))"
    if "regs (world s1) = op_effect (claim_cleanup s i) (regs (world s))" "io_frame s s1" for s1 p
  proof -
    have m: "map (claim_cleanup (s1\<lparr>claim_cleanup := (claim_cleanup s1)(i := p)\<rparr>)) is = map (claim_cleanup s) is"
      using Cons.prems(1) that(2) by (auto simp: io_frame_iff)
    show ?thesis
      by (rule holds_mono [OF Cons.IH [of "s1\<lparr>claim_cleanup := (claim_cleanup s1)(i := p)\<rparr>", unfolded m]])
        (use that(1) Cons.prems in simp_all)
  qed
  with Cons.prems show ?case
    by (auto simp: wp_simps Let_def intro!: holds_mono [OF device_internal_op [OF assms(1)]])
qed

lemma device_logs:
  assumes "spi_device K regs pend"
  shows "regs (world (log_msg K p t s)) = regs (world s)" and "regs (world (log_trace K t s)) = regs (world s)"
    and "now_us K s = (u, s') \<Longrightarrow> regs (world s') = regs (world s)"
proof -
  note w = device_clocked [OF assms, of sample_regs "regs (world s)"]
  show "regs (world (log_msg K p t s)) = regs (world s)"
    using clocked_world.in_P_log_msg [OF w, of s p t] by (simp add: clocked_world.in_P_def [OF w])
  show "regs (world (log_trace K t s)) = regs (world s)"
    using clocked_world.in_P_log [OF w, of s t] by (simp add: clocked_world.in_P_def [OF w])
  show "regs (world s') = regs (world s)" if "now_us K s = (u, s')"
    using clocked_world.in_P_now_us [OF w, of s u s'] that by (simp add: clocked_world.in_P_def [OF w])
qed

lemma claim_end_device:
  assumes d: "spi_device K regs pend" and n: "claim_ncleanup s \<le> SPIPROXY_BATCH_MAX"
  shows "holds (claim_end (hw_build K R) True s) (\<lambda>s'. regs (world s') = fold op_effect (cleanup_ops s) (regs (world s)))"
proof -
  note logged = device_logs(1,2) [OF d]
  have "holds (cleanup_loop (hw_build K R) [0..<claim_ncleanup s] ((log_warn K t (log_debug K u s))
      \<lparr>lctx_cid := a, lctx_comm := b, lctx_seq := e, lctx_tag := f\<rparr>))
      (\<lambda>s'. regs (world s') = fold op_effect (cleanup_ops s) (regs (world s)))" for t u a b e f
    by (rule holds_mono [OF cleanup_loop_device [OF d]]) (use n in \<open>auto simp: cleanup_ops_def logged\<close>)
  then show ?thesis
    by (auto simp: claim_end_def wp_simps Let_def logged cleanup_ops_def split: option.splits intro!: holds_mono)
qed

lemma cleaned:
  assumes "spi_device K regs pend" and "claim_ncleanup s \<le> SPIPROXY_BATCH_MAX"
  shows "holds (claim_end (hw_build K R) True s) (\<lambda>s'. regs (world s') = fold op_effect (cleanup_ops s) (regs (world s)) \<and>
    claim_owner s' = None \<and> claim_ncleanup s' = 0 \<and> sent s' = sent s)"
  using claim_end_device [OF assms, of R] hw.claim_end_holds [OF assms(2), of K R True] by (auto simp: holds_iff)


text \<open>Two cleanup operations on the same register, which end with the second value.\<close>

definition claimed_daemon :: "((u32 \<Rightarrow> u32) \<times> u32) daemon" where
  "claimed_daemon = (connected_daemon (\<lambda>a. 0, 0))\<lparr>claim_owner := Some 0, claim_deadline := 10, claim_ncleanup := 2,
     claim_cleanup := (\<lambda>i. sample_op 1 1 2 (of_nat i + 5))\<rparr>"

definition late_kernel :: "((u32 \<Rightarrow> u32) \<times> u32) kernel" where
  "late_kernel = mem_kernel\<lparr>k_clock := (\<lambda>w. ((1, 0), w))\<rparr>"

lemma late_kernel_device: "spi_device late_kernel fst snd"
  using mem_kernel_device unfolding spi_device_def late_kernel_def by simp


text \<open>
  C18. The same when the owner of the claim disconnects: its cleanup operations have run, in order,
  by the time its slot is free. (Closing a socket does not touch the device.)
\<close>

theorem dropped_claim_cleans:
  assumes "spi_device K regs pend" and "sched_ok s F Q L" and "claim_ncleanup s \<le> SPIPROXY_BATCH_MAX"
    and "claim_owner s = Some c"
    and "\<forall>fd w. regs (so_close S fd w) = regs w" and "\<forall>fd w. regs (so_epoll_del S fd w) = regs w"
  shows "\<exists>s'. client_drop S (hw_build K R) c s = Some s' \<and> regs (world s') = fold op_effect (cleanup_ops s) (regs (world s)) \<and>
    claim_owner s' = None \<and> \<not> c_used (cl s' c)"
proof -
  from cleaned [OF assms(1,3), of R] hw.drop_claim_holds [OF assms(2,3), of c K R] assms(4) obtain s1 where
    s1: "claim_end (hw_build K R) True s = Some s1" "regs (world s1) = fold op_effect (cleanup_ops s) (regs (world s))"
    "sched_ok s1 F Q L" by (auto simp: holds_iff)
  from purge_all_holds [OF s1(3), of c] obtain s2 where s2: "purge_all c s1 = Some s2" "relinked s1 s2"
    by (auto simp: holds_iff)
  have e: "client_drop S (hw_build K R) c s = Some (close_client S (hw_build K R) c s2)"
    using assms(4) s1 s2 by (simp add: client_drop_def)
  moreover have "regs (world (close_client S (hw_build K R) c s2)) = regs (world s2)"
    using assms(5,6) by (simp add: close_client_def Let_def device_logs [OF assms(1)])
  moreover from hw.client_drop_holds [OF assms(2,3), of S K R c] e
  have dr: "dropped c s (close_client S (hw_build K R) c s2)" by (auto simp: holds_iff)
  moreover from dr have "claim_owner (close_client S (hw_build K R) c s2) = None" using assms(4) by (simp add: dropped_def)
  ultimately show ?thesis using s1(2) relinked_world [OF s2(2)] dropped_unused [OF dr] by auto
qed

theorem dropped_claim_cleans_witness:
  "\<exists>s'. client_drop sample_sockets (hw_build mem_kernel sample_regs) 0 claimed_daemon = Some s' \<and>
     fst (world s') = fold op_effect (cleanup_ops claimed_daemon) (\<lambda>a. 0) \<and> \<not> c_used (cl s' 0)"
proof -
  have s: "run_frame (connected_daemon (\<lambda>a. 0, 0)) claimed_daemon" by (simp add: claimed_daemon_def)
  then have q: "sched_ok claimed_daemon [0..<MAX_QITEMS] (\<lambda>q. []) []"
    using connected_sched run_frame_sched_ok [OF s] by simp
  have "world claimed_daemon = (\<lambda>a. 0, 0)" by (simp add: claimed_daemon_def connected_fields)
  with dropped_claim_cleans [OF mem_kernel_device q, of 0 sample_sockets sample_regs] show ?thesis
    by (auto simp: claimed_daemon_def const_defs sample_sockets_def)
qed

section \<open>Reset\<close>



end
