(* ===== verification/Requests.thy ===== *)
theory Requests
  imports Claiming
begin

text \<open>
  Register requests against a reference. \<open>run_ops\<close> executes a list of operations one after the
  other and stops at the first that fails; BATCH, which decodes and updates the operations in place
  in the request's buffer, is shown to be this run, and on a device that stores registers to be
  the corresponding change of the registers.
\<close>

fun run_ops ::
    "'w build \<Rightarrow> nat \<Rightarrow> spiproxy_op list \<Rightarrow> 'w daemon \<Rightarrow> (spiproxy_status \<times> spiproxy_op list \<times> nat \<times> 'w daemon) option" where
  "run_ops B c [] s = Some (SPIPROXY_OK, [], 0, s)"
| "run_ops B c (p # ps) s =
     do {
       (st, p, s) \<leftarrow> exec_op B (Some c) p s;
       if st = SPIPROXY_OK then do {
         (st, ps, k, s) \<leftarrow> run_ops B c ps s;
         Some (st, p # ps, Suc k, s)
       }
       else Some (st, p # ps, 1, s)
     }"

definition body_ops :: "nat \<Rightarrow> 'w daemon \<Rightarrow> spiproxy_op list" where
  "body_ops it s = map (\<lambda>i. dec_op (read_body it (i * sizeof_op) sizeof_op s)) [0..<body_len it s div sizeof_op]"

text \<open>A pool with other contents in the buffer of one item.\<close>

definition rebuffer :: "nat \<Rightarrow> mem \<Rightarrow> (nat \<Rightarrow> qitem) \<Rightarrow> nat \<Rightarrow> qitem" where
  "rebuffer it m x = x(it := (x it)\<lparr>q_body := m\<rparr>)"

lemma rebuffer_simps [simp]:
  "q_body (rebuffer it m x it) = m" "q_c (rebuffer it m x i) = q_c (x i)" "q_hdr (rebuffer it m x i) = q_hdr (x i)"
  "rebuffer it m (rebuffer it m' x) = rebuffer it m x" "rebuffer it (q_body (x it)) x = x"
  by (auto simp: rebuffer_def)

lemma write_body_bufs:
  "write_body it off bs (with_bufs x y s) = with_bufs (rebuffer it (mem_write off bs (q_body (x it))) x) y s"
  by (simp add: write_body_def with_bufs_def rebuffer_def)

lemma with_bufs_pool [simp]: "pool (with_bufs x y s) = x" "claim_cleanup (with_bufs x y s) = y"
  by (simp_all add: with_bufs_def)

lemma with_bufs_id [simp]: "with_bufs (pool s) (claim_cleanup s) s = s"
  by (simp add: with_bufs_def)

context spi_backend
begin

lemma batch_loop_run:
  assumes "run_ops B (q_c (x it)) (map (\<lambda>i. dec_op (mem_read (q_body (x it)) (i * sizeof_op) sizeof_op)) is) s = Some (st, ps, j, s1)"
    and "distinct is" and "\<forall>i \<in> set is. i < SPIPROXY_BATCH_MAX"
  shows "\<exists>m. batch_loop B it is k (with_bufs x y s) = Some (st, k + j, with_bufs (rebuffer it m x) y s1) \<and>
    map (\<lambda>i. mem_read m (i * sizeof_op) sizeof_op) is = map enc_op ps \<and>
    (\<forall>i. i \<notin> set is \<longrightarrow> mem_read m (i * sizeof_op) sizeof_op = mem_read (q_body (x it)) (i * sizeof_op) sizeof_op)"
  using assms
proof (induction "is" arbitrary: x k s ps j)
  case Nil
  then show ?case by (auto intro: exI [of _ "q_body (x it)"])
next
  case (Cons i "is")
  let ?rd = "\<lambda>m i. mem_read m (i * sizeof_op) sizeof_op"
  let ?p = "dec_op (?rd (q_body (x it)) i)"
  have g: "i * sizeof_op + sizeof_op \<le> SPIPROXY_MSG_MAX" using Cons.prems(3) by (simp add: const_defs)
  obtain st1 p1 s2 where e: "exec_op B (Some (q_c (x it))) ?p s = Some (st1, p1, s2)"
    using exec_op_holds [of "Some (q_c (x it))" ?p s] by (auto simp: holds_iff)
  define m1 where "m1 = mem_write (i * sizeof_op) (enc_op p1) (q_body (x it))"
  have here: "?rd m1 i = enc_op p1" by (simp add: m1_def opf.length_enc)
  have there: "?rd m1 j = ?rd (q_body (x it)) j" if "j \<noteq> i" for j
    unfolding m1_def using that opf.fetch_store_disjoint [of i j] by simp
  have tail: "?rd m1 j = ?rd (q_body (x it)) j" if "j \<in> set is" for j
    using Cons.prems(2) that by (intro there) auto
  let ?x = "rebuffer it m1 x"
  have step: "batch_loop B it (i # is) k (with_bufs x y s) =
      (if st1 = SPIPROXY_OK then batch_loop B it is (Suc k) (with_bufs ?x y s2) else Some (st1, Suc k, with_bufs ?x y s2))"
    using g e by (simp add: exec_op_bufs read_body_def write_body_bufs m1_def)
  have rest: "map (\<lambda>i. dec_op (?rd m1 i)) is = map (\<lambda>i. dec_op (?rd (q_body (x it)) i)) is"
    by (rule map_cong [OF refl]) (simp add: tail)
  show ?case
  proof (cases "st1 = SPIPROXY_OK")
    case True
    then obtain ps' j' where r: "run_ops B (q_c (x it)) (map (\<lambda>i. dec_op (?rd (q_body (x it)) i)) is) s2 = Some (st, ps', j', s1)"
      "ps = p1 # ps'" "j = Suc j'" using Cons.prems(1) e by (auto simp: Option.bind_eq_Some_conv split: if_splits)
    with Cons.IH [of ?x s2 ps' j' "Suc k"] rest Cons.prems(2,3) obtain m where
      m: "batch_loop B it is (Suc k) (with_bufs ?x y s2) = Some (st, Suc k + j', with_bufs (rebuffer it m x) y s1)"
      "map (?rd m) is = map enc_op ps'" "\<forall>i. i \<notin> set is \<longrightarrow> ?rd m i = ?rd m1 i" by auto
    then show ?thesis
      using step True r here there Cons.prems(2) by (intro exI [of _ m]) auto
  next
    case False
    then have "st = st1" "ps = p1 # map (\<lambda>i. dec_op (?rd (q_body (x it)) i)) is" "j = 1" "s1 = s2"
      using Cons.prems(1) e by auto
    moreover have "map (?rd m1) is = map enc_op (map (\<lambda>i. dec_op (?rd (q_body (x it)) i)) is)"
      by (simp add: tail opf.enc_dec)
    ultimately show ?thesis
      using step False here there by (intro exI [of _ m1]) auto
  qed
qed

lemma run_ops_holds: "holds (run_ops B c ps s) (\<lambda>(st, ps', k, s'). io_frame s s' \<and> length ps' = length ps)"
proof (induction ps arbitrary: s)
  case Nil
  then show ?case by (simp add: wp_simps)
next
  case (Cons p ps)
  have rest: "holds (run_ops B c ps s1) (\<lambda>(st, ps', k, s'). io_frame s s' \<and> length ps' = length ps)" if "io_frame s s1" for s1
    by (rule holds_mono [OF Cons.IH]) (use that in \<open>auto intro: io_frame_trans\<close>)
  show ?case by (auto simp: wp_simps intro!: holds_mono [OF exec_op_holds] holds_mono [OF rest])
qed

lemma exec_batch_run:
  assumes "body_len it s = n * sizeof_op" and "1 \<le> n" and "n \<le> SPIPROXY_BATCH_MAX"
  shows "\<exists>st ps k s1 x. run_ops B (q_c (pool s it)) (body_ops it s) s = Some (st, ps, k, s1) \<and>
    exec_batch B it s = send_resp B (q_c (pool s it)) (q_hdr (pool s it)) st (concat (map enc_op ps))
      (add_n_ops (q_c (pool s it)) k (with_bufs x (claim_cleanup s) s1))"
proof -
  let ?c = "q_c (pool s it)" and ?m = "q_body (pool s it)"
  have n: "body_len it s div sizeof_op = n" "body_len it s mod sizeof_op = 0" using assms(1) by (simp_all add: sizeof_op_def)
  have ops: "body_ops it s = map (\<lambda>i. dec_op (mem_read ?m (i * sizeof_op) sizeof_op)) [0..<n]"
    by (simp add: body_ops_def n read_body_def)
  obtain st ps k s1 where r: "run_ops B ?c (body_ops it s) s = Some (st, ps, k, s1)"
    using run_ops_holds [of ?c "body_ops it s" s] by (auto simp: holds_iff)
  from batch_loop_run [of "pool s" it "[0..<n]" s st ps k s1 0 "claim_cleanup s"] r assms(3) obtain m where
    m: "batch_loop B it [0..<n] 0 s = Some (st, k, with_bufs (rebuffer it m (pool s)) (claim_cleanup s) s1)"
    "map (\<lambda>i. mem_read m (i * sizeof_op) sizeof_op) [0..<n] = map enc_op ps" by (auto simp: ops)
  let ?s = "add_n_ops ?c k (with_bufs (rebuffer it m (pool s)) (claim_cleanup s) s1)"
  have bl: "body_len it ?s = n * sizeof_op" using assms(1) by (simp add: body_len_def add_n_ops_def)
  have rd: "read_body it 0 (n * sizeof_op) ?s = concat (map enc_op ps)"
    by (simp add: read_body_def add_n_ops_def mem_read_blocks m(2))
  have "exec_batch B it s = send_resp B ?c (q_hdr (pool s it)) st (concat (map enc_op ps)) ?s"
    using assms(2,3) n m(1) by (simp add: exec_batch_def Let_def bl rd)
  with r show ?thesis by blast
qed

end

section \<open>On a device\<close>

fun device_results :: "spiproxy_op list \<Rightarrow> (u32 \<Rightarrow> u32) \<Rightarrow> spiproxy_op list" where
  "device_results [] r = []"
| "device_results (p # ps) r =
     (if o_write p \<noteq> 0 then p else p\<lparr>o_val := r (op_addr p)\<rparr>) # device_results ps (op_effect p r)"

lemma length_device_results [simp]: "length (device_results ps r) = length ps"
  by (induction ps arbitrary: r) simp_all

lemma run_ops_device:
  assumes d: "spi_device K regs pend" and "\<not> mb_inflight s" and "\<forall>p \<in> set ps. unat (o_slice p) < SLICE_COUNT"
  shows "\<exists>s'. run_ops (hw_build K R) c ps s = Some (SPIPROXY_OK, device_results ps (regs (world s)), length ps, s') \<and>
    regs (world s') = fold op_effect ps (regs (world s))"
  using assms(2,3)
proof (induction ps arbitrary: s)
  case (Cons p ps)
  from device_op [OF d, of p s "Some c" R] Cons.prems obtain s1 where
    s1: "exec_op (hw_build K R) (Some c) p s =
      Some (SPIPROXY_OK, if o_write p \<noteq> 0 then p else p\<lparr>o_val := regs (world s) (op_addr p)\<rparr>, s1)"
    "regs (world s1) = op_effect p (regs (world s))" "\<not> mb_inflight s1"
    by (auto simp: op_effect_def op_addr_def split: if_splits)
  with Cons.IH [of s1] Cons.prems(2) show ?case by auto
qed simp

section \<open>Properties\<close>

text \<open>
  C10. BATCH is sequential execution: for one to 64 operations, the request does to the daemon and
  to the outside world what executing the decoded operations one after the other does, stopping at
  the first that does not succeed; the reply carries that status and all operations, the
  executed ones with their results and the others as they came; and the client's
  operation counter grows by the number executed.
\<close>

theorem batch_is_sequential:
  assumes "body_len it s = n * sizeof_op" and "1 \<le> n" and "n \<le> SPIPROXY_BATCH_MAX"
  shows "\<exists>st ps k s1 x. run_ops (hw_build K R) (q_c (pool s it)) (body_ops it s) s = Some (st, ps, k, s1) \<and>
    exec_batch (hw_build K R) it s = send_resp (hw_build K R) (q_c (pool s it)) (q_hdr (pool s it)) st (concat (map enc_op ps))
      (add_n_ops (q_c (pool s it)) k (s1\<lparr>pool := x\<rparr>))"
proof -
  from hw.exec_batch_run [OF assms, of K R] obtain st ps k s1 x where
    r: "run_ops (hw_build K R) (q_c (pool s it)) (body_ops it s) s = Some (st, ps, k, s1)"
    and e: "exec_batch (hw_build K R) it s = send_resp (hw_build K R) (q_c (pool s it)) (q_hdr (pool s it)) st (concat (map enc_op ps))
      (add_n_ops (q_c (pool s it)) k (with_bufs x (claim_cleanup s) s1))" by blast
  have "claim_cleanup s1 = claim_cleanup s"
    using hw.run_ops_holds [of K R "q_c (pool s it)" "body_ops it s" s] r by (simp add: holds_iff io_frame_iff)
  then have "with_bufs x (claim_cleanup s) s1 = s1\<lparr>pool := x\<rparr>" by (simp add: with_bufs_def)
  with r e show ?thesis by metis
qed

text \<open>A BATCH that writes a register and reads it back, queued for client 0.\<close>

definition sample_batch :: "u8 list" where
  "sample_batch = enc_op (sample_op 1 1 2 77) @ enc_op (sample_op 0 1 2 0)"

abbreviation batch_daemon :: "((u32 \<Rightarrow> u32) \<times> u32) daemon" where
  "batch_daemon \<equiv> queued SPIPROXY_BATCH sample_batch (\<lambda>a. 0, 0)"

lemma batch_daemon_facts:
  "body_len 0 batch_daemon = 2 * sizeof_op" "body_ops 0 batch_daemon = [sample_op 1 1 2 77, sample_op 0 1 2 0]"
  "q_c (pool batch_daemon 0) = 0" "\<not> mb_inflight batch_daemon"
proof -
  have l: "length sample_batch = 2 * sizeof_op" "length sample_batch \<le> SPIPROXY_MSG_MAX"
    by (simp_all add: sample_batch_def opf.length_enc const_defs)
  note f = queued_facts [OF l(2), where ty = SPIPROXY_BATCH and w = "(\<lambda>a. 0, 0) :: (u32 \<Rightarrow> u32) \<times> u32"]
  show 1: "body_len 0 batch_daemon = 2 * sizeof_op"
    using f(6) l(1) by (simp add: body_len_def request_def const_defs)
  have "read_body 0 0 sizeof_op batch_daemon = enc_op (sample_op 1 1 2 77)"
    "read_body 0 sizeof_op sizeof_op batch_daemon = enc_op (sample_op 0 1 2 0)"
    using queued_read [OF l(2), of 0 sizeof_op] queued_read [OF l(2), of sizeof_op sizeof_op] l(1)
    by (simp_all add: sample_batch_def opf.length_enc)
  then show "body_ops 0 batch_daemon = [sample_op 1 1 2 77, sample_op 0 1 2 0]"
    by (simp add: body_ops_def 1 sizeof_op_def numeral_2_eq_2)
  show "q_c (pool batch_daemon 0) = 0" "\<not> mb_inflight batch_daemon" using f(5,11) by simp_all
qed

theorem batch_is_sequential_witness:
  "\<exists>st ps k s1 x. run_ops sample_hw 0 [sample_op 1 1 2 77, sample_op 0 1 2 0] batch_daemon = Some (st, ps, k, s1) \<and>
    exec_batch sample_hw 0 batch_daemon = send_resp sample_hw 0 (q_hdr (pool batch_daemon 0)) st (concat (map enc_op ps))
      (add_n_ops 0 k (s1\<lparr>pool := x\<rparr>))"
  using batch_is_sequential [OF batch_daemon_facts(1), of sample_kernel sample_regs] by (simp add: batch_daemon_facts(2,3) const_defs)

text \<open>
  C19. On a device that stores registers, and outside mailbox transactions, a BATCH on existing
  slices succeeds: the writes take effect in order, each read in it sees the writes before it,
  and the reply is OK with these values. (Sending a message does not touch the device.)
\<close>

theorem batch_on_device:
  assumes "spi_device K regs pend" and "\<forall>fd m w. regs (snd (k_send K fd m w)) = regs w"
    and "body_len it s = n * sizeof_op" and "1 \<le> n" and "n \<le> SPIPROXY_BATCH_MAX"
    and "\<not> mb_inflight s" and "\<forall>p \<in> set (body_ops it s). unat (o_slice p) < SLICE_COUNT"
  shows "\<exists>s'. exec_batch (hw_build K R) it s = Some s' \<and> regs (world s') = fold op_effect (body_ops it s) (regs (world s)) \<and>
    sent s' = sent s @ [reply_of it SPIPROXY_OK (concat (map enc_op (device_results (body_ops it s) (regs (world s))))) s]"
proof -
  let ?c = "q_c (pool s it)" and ?ps = "device_results (body_ops it s) (regs (world s))" and ?k = "length (body_ops it s)"
  from run_ops_device [OF assms(1,6,7), of R ?c] obtain s1 where
    r: "run_ops (hw_build K R) ?c (body_ops it s) s = Some (SPIPROXY_OK, ?ps, ?k, s1)"
    "regs (world s1) = fold op_effect (body_ops it s) (regs (world s))" by blast
  with hw.exec_batch_run [OF assms(3-5), of K R] obtain x where
    e: "exec_batch (hw_build K R) it s = send_resp (hw_build K R) ?c (q_hdr (pool s it)) SPIPROXY_OK (concat (map enc_op ?ps))
      (add_n_ops ?c ?k (with_bufs x (claim_cleanup s) s1))" by auto
  let ?s = "add_n_ops ?c ?k (with_bufs x (claim_cleanup s) s1)"
  have io: "io_frame s s1" using hw.run_ops_holds [of K R ?c "body_ops it s" s] r by (simp add: holds_iff)
  have s: "sent ?s = sent s" "c_fd (cl ?s ?c) = c_fd (cl s ?c)" "world ?s = world s1"
    using io by (simp_all add: add_n_ops_def with_bufs_def io_frame_iff)
  have len: "length (concat (map enc_op ?ps)) \<le> SPIPROXY_MSG_MAX"
    using assms(3,5) by (simp add: length_concat comp_def opf.length_enc sum_list_triv body_ops_def const_defs)
  have w: "sending_world (hw_build K R) (\<lambda>w. regs w = regs (world s1))"
    by unfold_locales (use assms(1,2) in \<open>simp_all add: spi_device_def\<close>)
  from sending_world.send_resp_keeps_P [OF w, of ?s ?c "q_hdr (pool s it)" SPIPROXY_OK "concat (map enc_op ?ps)"]
    send_resp_holds [OF len, of "hw_build K R" ?c "q_hdr (pool s it)" SPIPROXY_OK ?s] s r(2)
  show ?thesis by (auto simp: e holds_iff returns_iff reply_of_def)
qed

theorem batch_on_device_witness:
  "\<exists>s'. exec_batch (hw_build mem_kernel sample_regs) 0 batch_daemon = Some s' \<and>
    sent s' = [reply_of 0 SPIPROXY_OK (enc_op (sample_op 1 1 2 77) @ enc_op (sample_op 0 1 2 77)) batch_daemon]"
proof -
  let ?w = "(\<lambda>a. 0, 0) :: (u32 \<Rightarrow> u32) \<times> u32"
  have l: "length sample_batch \<le> SPIPROXY_MSG_MAX" by (simp add: sample_batch_def opf.length_enc const_defs)
  have "device_results (body_ops 0 batch_daemon) (\<lambda>a. 0) = [sample_op 1 1 2 77, sample_op 0 1 2 77]"
    by (simp add: batch_daemon_facts(2) op_effect_def op_addr_def) (simp add: sample_op_def const_defs)
  then have r: "device_results (body_ops 0 batch_daemon) (fst (world batch_daemon)) = [sample_op 1 1 2 77, sample_op 0 1 2 77]"
    using queued_world [OF l, of SPIPROXY_BATCH ?w] by simp
  have "\<forall>p \<in> set (body_ops 0 batch_daemon). unat (o_slice p) < SLICE_COUNT"
    by (simp add: batch_daemon_facts(2) sample_op_def const_defs)
  from batch_on_device [OF mem_kernel_device _ batch_daemon_facts(1) _ _ batch_daemon_facts(4) this, of sample_regs]
    queued_facts(9) [OF l, of SPIPROXY_BATCH ?w] r
  show ?thesis by (auto simp: mem_kernel_def sample_kernel_def SPIPROXY_BATCH_MAX_def)
qed

section \<open>Refused requests\<close>

text \<open>What the daemon refuses: requests whose body has not the size their type and content ask for, and types it does not implement.\<close>

definition malformed :: "nat \<Rightarrow> 'w daemon \<Rightarrow> bool" where
  "malformed it s \<longleftrightarrow>
     (case type_of_code (h_type (q_hdr (pool s it))) of
        Some SPIPROXY_READ \<Rightarrow> body_len it s \<noteq> sizeof_op
      | Some SPIPROXY_WRITE \<Rightarrow> body_len it s \<noteq> sizeof_op
      | Some SPIPROXY_BATCH \<Rightarrow> body_len it s \<notin> (\<lambda>n. n * sizeof_op) ` {1..SPIPROXY_BATCH_MAX}
      | Some SPIPROXY_CLAIM \<Rightarrow>
          body_len it s < sizeof_claim \<or>
          (let n = unat (cl_ncleanup (dec_claim (read_body it 0 sizeof_claim s)))
           in SPIPROXY_BATCH_MAX < n \<or> body_len it s \<noteq> sizeof_claim + n * sizeof_op)
      | Some SPIPROXY_MAILBOX \<Rightarrow>
          body_len it s \<noteq> sizeof_mb + unat (mb_payload_len (dec_mb (read_body it 0 sizeof_mb s)))
      | Some SPIPROXY_RESET \<Rightarrow> body_len it s \<noteq> sizeof_reset
      | _ \<Rightarrow> False)"

definition unsupported :: "nat \<Rightarrow> 'w daemon \<Rightarrow> bool" where
  "unsupported it s \<longleftrightarrow>
     type_of_code (h_type (q_hdr (pool s it))) \<in>
       {None, Some SPIPROXY_TSFIFO_SUB, Some SPIPROXY_BER_WINDOW, Some SPIPROXY_DFU}"

lemma batch_sizes:
  "body_len it s \<notin> (\<lambda>n. n * sizeof_op) ` {1..SPIPROXY_BATCH_MAX} \<longleftrightarrow>
   body_len it s div sizeof_op < 1 \<or> SPIPROXY_BATCH_MAX < body_len it s div sizeof_op \<or> body_len it s mod sizeof_op \<noteq> 0"
proof -
  have "body_len it s = body_len it s div sizeof_op * sizeof_op + body_len it s mod sizeof_op" by simp
  then have "body_len it s \<in> (\<lambda>n. n * sizeof_op) ` {1..SPIPROXY_BATCH_MAX}"
    if "body_len it s mod sizeof_op = 0" "1 \<le> body_len it s div sizeof_op" "body_len it s div sizeof_op \<le> SPIPROXY_BATCH_MAX"
    using that by (intro image_eqI [of _ _ "body_len it s div sizeof_op"]) auto
  moreover have "n * sizeof_op div sizeof_op = n" for n by (simp add: sizeof_op_def)
  ultimately show ?thesis by force
qed

lemma refused:
  assumes "malformed it s \<or> unsupported it s"
  shows "exec_item W B it s = ran (send_resp B (q_c (pool s it)) (q_hdr (pool s it))
    (if malformed it s then SPIPROXY_EINVAL else SPIPROXY_ENOSYS) [] (enter_item it s))"
proof -
  have e: "body_len it (enter_item it s) = body_len it s" "read_body it a n (enter_item it s) = read_body it a n s" for a n
    by (simp_all add: body_len_def read_body_def)
  show ?thesis
    using assms unfolding malformed_def batch_sizes unsupported_def
    by (auto simp: exec_item_def exec_read_write_def exec_batch_def exec_claim_def exec_mb_item_def exec_reset_def e Let_def
        split: option.splits spiproxy_type.splits)
qed



section \<open>Claim requests\<close>

lemma claim_body:
  assumes "read_body it 0 (body_len it s) s = enc_claim rq @ concat (map enc_op ops)"
  shows "body_len it s = sizeof_claim + length ops * sizeof_op" and "dec_claim (read_body it 0 sizeof_claim s) = rq"
    and "i < length ops \<Longrightarrow> dec_op (read_body it (sizeof_claim + i * sizeof_op) sizeof_op s) = ops ! i"
proof -
  let ?m = "q_body (pool s it)"
  show len: "body_len it s = sizeof_claim + length ops * sizeof_op"
    using arg_cong [OF assms(1), of length] by (simp add: read_body_def clm.length_enc length_concat comp_def opf.length_enc sum_list_triv)
  have bytes: "mem_read ?m 0 (body_len it s) = enc_claim rq @ concat (map enc_op ops)" using assms(1) by (simp add: read_body_def)
  show rq: "dec_claim (read_body it 0 sizeof_claim s) = rq"
    using arg_cong [OF bytes, of "take sizeof_claim"] by (simp add: read_body_def len clm.length_enc)
  show "dec_op (read_body it (sizeof_claim + i * sizeof_op) sizeof_op s) = ops ! i" if "i < length ops"
  proof -
    have "mem_read ?m sizeof_claim (length ops * sizeof_op) = concat (map enc_op ops)"
      using arg_cong [OF bytes, of "drop sizeof_claim"] by (simp add: len clm.length_enc)
    from mem_read_block [OF this _ that] show ?thesis by (simp add: read_body_def opf.length_enc)
  qed
qed

text \<open>
  C20. A claim request with its cleanup operations in the body is granted when the claim is free or
  already the client's: the client owns the claim, its deadline is the given number of
  milliseconds after the daemon's clock, the operations the daemon would run at an abnormal end
  are exactly those in the body, and the answer is OK. While another client holds the claim
  the answer is EBUSY and the claim stays as it is.
\<close>

theorem claim_request:
  assumes "read_body it 0 (body_len it s) s = enc_claim rq @ concat (map enc_op ops)"
    and "unat (cl_ncleanup rq) = length ops" and "length ops \<le> SPIPROXY_BATCH_MAX" and "c = q_c (pool s it)"
  shows "\<exists>s'. exec_claim (hw_build K R) it s = Some s' \<and>
    (if claim_owner s \<in> {None, Some c}
     then claim_owner s' = Some c \<and> cleanup_ops s' = ops \<and> sent s' = sent s @ [reply_of it SPIPROXY_OK [] s] \<and>
       (\<exists>s0. io_frame (s\<lparr>claim_owner := Some c\<rparr>) s0 \<and> claim_deadline s' = fst (now_us K s0) + ucast (cl_max_ms rq) * 1000)
     else claim_of s' = claim_of s \<and> sent s' = sent s @ [reply_of it SPIPROXY_EBUSY [] s])"
proof -
  note len = claim_body(1) [OF assms(1)] and rq = claim_body(2) [OF assms(1)] and op = claim_body(3) [OF assms(1)]
  have n: "unat (cl_ncleanup rq) \<le> SPIPROXY_BATCH_MAX" "body_len it s = sizeof_claim + unat (cl_ncleanup rq) * sizeof_op"
    using assms(2,3) len by simp_all
  show ?thesis
  proof (cases "claim_owner s \<in> {None, Some c}")
    case False
    then have "exec_claim (hw_build K R) it s = send_resp (hw_build K R) (q_c (pool s it)) (q_hdr (pool s it)) SPIPROXY_EBUSY [] s"
      using n assms(4) by (auto simp: exec_claim_def Let_def rq)
    with send_resp_holds [of "[]" "hw_build K R" "q_c (pool s it)" "q_hdr (pool s it)" SPIPROXY_EBUSY s] False show ?thesis
      by (auto simp: holds_iff reply_of_def)
  next
    case True
    define s0 where "s0 = log_debug K (''C'' @ pu (c_id (cl s c)) @ ''('' @ c_comm (cl s c) @ '') seq='' @ pu (h_seq (q_hdr (pool s it))) @
      '' CLAIM grant max_ms='' @ pu (cl_max_ms rq) @ '' ncleanup='' @ pu (cl_ncleanup rq)) (s\<lparr>claim_owner := Some c\<rparr>)"
    obtain t s1 where t: "now_us K s0 = (t, s1)" by fastforce
    have f0: "io_frame (s\<lparr>claim_owner := Some c\<rparr>) s0" by (simp add: s0_def)
    have f1: "io_frame (s\<lparr>claim_owner := Some c\<rparr>) s1" using io_frame_trans [OF f0 io_frame_now_us [OF t]] .
    define s2 where "s2 = s1\<lparr>claim_deadline := t + ucast (cl_max_ms rq) * 1000, claim_ncleanup := length ops,
      claim_cleanup := (\<lambda>i. if i < length ops then dec_op (read_body it (sizeof_claim + i * sizeof_op) sizeof_op s) else claim_cleanup s1 i)\<rparr>"
    have "exec_claim (hw_build K R) it s = send_resp (hw_build K R) c (q_hdr (pool s it)) SPIPROXY_OK [] s2"
      using True n assms(2) f1 t [unfolded s0_def] unfolding exec_claim_def Let_def rq assms(4) [symmetric]
      by (auto simp: s2_def read_body_def io_frame_iff cong: if_cong)
    moreover have "cleanup_ops s2 = ops" by (rule nth_equalityI) (simp_all add: cleanup_ops_def s2_def op)
    moreover have "sent s2 = sent s" "claim_owner s2 = Some c" "cl s2 = cl s" "claim_deadline s2 = fst (now_us K s0) + ucast (cl_max_ms rq) * 1000"
      using f1 t by (simp_all add: s2_def io_frame_iff)
    moreover note send_resp_holds [of "[]" "hw_build K R" c "q_hdr (pool s it)" SPIPROXY_OK s2]
    ultimately show ?thesis
      using True f0 assms(4) by (auto simp: holds_iff reply_of_def claim_of_def cleanup_ops_def)
  qed
qed

theorem claim_request_witness:
  "\<exists>s'. exec_claim sample_hw 0 (queued SPIPROXY_CLAIM
      (enc_claim \<lparr>cl_max_ms = 500, cl_ncleanup = 1, cl_rsvd = 0\<rparr> @ enc_op (sample_op 1 1 2 77)) ()) = Some s' \<and>
    claim_owner s' = Some 0 \<and> cleanup_ops s' = [sample_op 1 1 2 77]"
proof -
  let ?rq = "\<lparr>cl_max_ms = 500, cl_ncleanup = 1, cl_rsvd = 0\<rparr>"
  let ?b = "enc_claim ?rq @ concat (map enc_op [sample_op 1 1 2 77])"
  let ?s = "queued SPIPROXY_CLAIM ?b ()"
  have l: "length ?b \<le> SPIPROXY_MSG_MAX" by (simp add: clm.length_enc opf.length_enc const_defs)
  note f = queued_facts [OF l, of SPIPROXY_CLAIM "()"]
  have "read_body 0 0 (body_len 0 ?s) ?s = ?b" using f(7) queued_len [OF l, of SPIPROXY_CLAIM "()"] by simp
  from claim_request [OF this, of 0 sample_kernel sample_regs] f(5,10) show ?thesis by (auto simp: SPIPROXY_BATCH_MAX_def)
qed

end
