(* ===== verification/Scheduling.thy ===== *)
theory Scheduling
  imports Samples
begin

text \<open>
  The request queues against their specification. The specification knows nothing of pools and
  links: three lists of requests, where a request is its client, its header and its body.
  \<open>refines\<close> relates the heap to it; taking, adding and dropping requests refine the operations on
  lists. Then the ends of a client's life: what is accepted from it, and how it gets its slot.
\<close>

section \<open>Specification\<close>

type_synonym req = "nat \<times> spiproxy_hdr \<times> u8 list"

definition req_eligible :: "nat option \<Rightarrow> req \<Rightarrow> bool" where
  "req_eligible owner r \<longleftrightarrow>
     (case r of (c, h, body) \<Rightarrow> owner \<in> {None, Some c} \<or>
        type_of_code (h_type h) \<noteq> Some SPIPROXY_MAILBOX \<and> type_code SPIPROXY_CLAIM \<le> h_type h)"

text \<open>The first eligible request in order of priority, then age; and the queues without it.\<close>

fun spec_take :: "('r \<Rightarrow> bool) \<Rightarrow> (nat \<Rightarrow> 'r list) \<Rightarrow> nat list \<Rightarrow> ('r \<times> (nat \<Rightarrow> 'r list)) option" where
  "spec_take e V [] = None"
| "spec_take e V (q # qs) =
     (case List.extract e (V q) of
        None \<Rightarrow> spec_take e V qs
      | Some (ys, r, zs) \<Rightarrow> Some (r, V(q := ys @ zs)))"

definition spec_put :: "nat \<Rightarrow> 'r \<Rightarrow> (nat \<Rightarrow> 'r list) \<Rightarrow> nat \<Rightarrow> 'r list" where
  "spec_put q r V = V(q := V q @ [r])"

definition spec_drop :: "nat \<Rightarrow> (nat \<Rightarrow> req list) \<Rightarrow> nat \<Rightarrow> req list" where
  "spec_drop c V q = filter (\<lambda>r. fst r \<noteq> c) (V q)"

section \<open>Refinement relation\<close>

definition req_of :: "'w daemon \<Rightarrow> nat \<Rightarrow> req" where
  "req_of s i = (q_c (pool s i), q_hdr (pool s i), read_body i 0 (body_len i s) s)"

definition refines :: "'w daemon \<Rightarrow> nat list \<Rightarrow> (nat \<Rightarrow> req list) \<Rightarrow> nat list \<Rightarrow> bool" where
  "refines s F V L \<longleftrightarrow> (\<exists>Q. sched_ok s F Q L \<and> (\<forall>q < 3. V q = map (req_of s) (Q q)))"

lemma req_of_item: "item_of s' i = item_of s i \<Longrightarrow> req_of s' i = req_of s i"
  by (simp add: req_of_def item_of_def read_body_def body_len_def)

lemma item_eligible_req: "item_eligible s i = req_eligible (claim_owner s) (req_of s i)"
proof -
  have "type_of_code (h_type h) \<noteq> Some SPIPROXY_MAILBOX \<longleftrightarrow> h_type h \<noteq> type_code SPIPROXY_MAILBOX" for h
    by (simp add: type_of_code_eq_iff)
  then show ?thesis by (auto simp: item_eligible_def req_eligible_def req_of_def)
qed

lemma extract_map_first:
  assumes "xs = ys @ x # zs" and "\<forall>y \<in> set ys. \<not> e (f y)" and "e (f x)"
  shows "List.extract e (map f xs) = Some (map f ys, f x, map f zs)"
  using assms by (simp add: extract_Some_iff)

lemma spec_take_pick:
  assumes "\<forall>q \<in> set qs. V q = map f (Q q)"
  shows "spec_take e V qs = (case pick_spec (\<lambda>i. e (f i)) Q qs of
     None \<Rightarrow> None
   | Some (q, it) \<Rightarrow> (case List.extract (\<lambda>i. e (f i)) (Q q) of
       None \<Rightarrow> None | Some (ys, x, zs) \<Rightarrow> Some (f it, V(q := map f (ys @ zs)))))"
  using assms
proof (induction qs)
  case (Cons q qs)
  show ?case
  proof (cases "find (\<lambda>i. e (f i)) (Q q)")
    case None
    then have "\<forall>i \<in> set (Q q). \<not> e (f i)" by (simp add: find_None_iff)
    then have "List.extract e (V q) = None" using Cons.prems by (auto simp: extract_None_iff)
    with None Cons show ?thesis by (simp add: pick_spec.simps)
  next
    case (Some x)
    from find_split [OF this] obtain ys zs where x: "Q q = ys @ x # zs" "\<forall>y \<in> set ys. \<not> e (f y)" "e (f x)" .
    from extract_map_first [OF x(1), of e f] x Cons.prems have "List.extract e (V q) = Some (map f ys, f x, map f zs)" by simp
    moreover have "List.extract (\<lambda>i. e (f i)) (Q q) = Some (ys, x, zs)" using x by (simp add: extract_Some_iff)
    ultimately show ?thesis using Some by (simp add: pick_spec.simps)
  qed
qed (simp add: pick_spec.simps)

lemma refines_upd:
  assumes "\<forall>q < 3. V q = map (req_of s) (Q q)" and "item_of s' = item_of s" and "sched_ok s' F' (Q(q := xs)) L'"
  shows "refines s' F' (V(q := map (req_of s) xs)) L'"
proof -
  have "req_of s' = req_of s" using assms(2) by (intro ext req_of_item) simp
  with assms show ?thesis unfolding refines_def by (intro exI [of _ "Q(q := xs)"]) auto
qed

text \<open>The state with one STATS request queued, as its specification sees it.\<close>

lemma queued_refines:
  "refines (queued SPIPROXY_STATS [] ()) [1..<MAX_QITEMS] ((\<lambda>q. [])(1 := [(0, request SPIPROXY_STATS 0, [])])) []"
proof -
  let ?s = "queued SPIPROXY_STATS [] ()"
  have l: "length ([] :: u8 list) \<le> SPIPROXY_MSG_MAX" by simp
  note f = queued_facts [OF l, where ty = SPIPROXY_STATS and w = "()"]
  have "req_of ?s 0 = (0, request SPIPROXY_STATS 0, [])"
    using f by (simp add: req_of_def body_len_def read_body_def request_def)
  then show ?thesis
    using f(2) by (auto simp: refines_def one_queued_def intro!: exI [of _ one_queued])
qed

section \<open>Taking, adding, dropping\<close>

text \<open>
  C6. The scheduler's choice refines its specification: it takes the oldest eligible request of
  the highest priority class that has one, hands out exactly that request, leaves all others in
  their order, and finds nothing only when nothing is eligible; requests of other clients are
  eligible under a claim only if they are control messages.
\<close>

theorem dequeue_refines:
  assumes "refines s F V L"
  shows "case spec_take (req_eligible (claim_owner s)) V [0, 1, 2] of
      None \<Rightarrow> dequeue s = Some None
    | Some (r, V') \<Rightarrow> \<exists>it s'. dequeue s = Some (Some (it, s')) \<and> req_of s' it = r \<and> refines s' F V' (it # L)"
proof -
  obtain Q where q: "sched_ok s F Q L" and V: "\<forall>q < 3. V q = map (req_of s) (Q q)"
    using assms by (auto simp: refines_def)
  have e: "(\<lambda>i. req_eligible (claim_owner s) (req_of s i)) = item_eligible s" by (simp add: fun_eq_iff item_eligible_req)
  have "\<forall>q \<in> set [0, 1, 2]. V q = map (req_of s) (Q q)" using V by auto
  note sp = spec_take_pick [OF this, of "req_eligible (claim_owner s)", unfolded e]
  show ?thesis
  proof (cases "pick_spec (item_eligible s) Q [0, 1, 2]")
    case None
    with dequeue_holds [OF q] show ?thesis unfolding sp by (simp add: holds_iff)
  next
    case (Some x)
    then obtain k it where p: "pick_spec (item_eligible s) Q [0, 1, 2] = Some (k, it)" by (cases x) auto
    with dequeue_holds [OF q] obtain s' where d: "dequeue s = Some (Some (it, s'))"
      and s': "sched_ok s' F (Q(k := remove1 it (Q k))) (it # L)" and r: "relinked s s'" by (auto simp: holds_iff)
    from pick_spec_first [OF p] pick_spec_mem [OF p] obtain ys zs where
      x: "Q k = ys @ it # zs" "\<forall>y \<in> set ys. \<not> item_eligible s y" "item_eligible s it" by blast
    then have ex: "List.extract (item_eligible s) (Q k) = Some (ys, it, zs)" and rm: "remove1 it (Q k) = ys @ zs"
      by (auto simp: extract_Some_iff remove1_append)
    have i: "item_of s' = item_of s" using r by (simp add: relinked_def)
    from refines_upd [OF V i s'] have "refines s' F (V(k := map (req_of s) (ys @ zs))) (it # L)" by (simp only: rm)
    moreover have "req_of s' it = req_of s it" by (rule req_of_item) (simp add: i)
    ultimately show ?thesis unfolding sp p using d by (simp add: ex)
  qed
qed

theorem dequeue_refines_witness:
  "\<exists>it s'. dequeue (queued SPIPROXY_STATS [] ()) = Some (Some (it, s')) \<and> req_of s' it = (0, request SPIPROXY_STATS 0, []) \<and>
     refines s' [1..<MAX_QITEMS] (\<lambda>q. []) [it]"
  using dequeue_refines [OF queued_refines] queued_facts(10) [of "[]" SPIPROXY_STATS "()"]
  by (auto simp: req_eligible_def extract_def fun_upd_idem)

lemma enqueue_put:
  assumes r: "refines s (it # F) V L" and len: "unat (h_len h) = length body" "length body \<le> SPIPROXY_MSG_MAX"
  shows "holds (enqueue B c h body s) (\<lambda>s'. refines s' F (spec_put (prio_queue (h_flags h)) (c, h, body) V) L \<and>
    sent s' = sent s \<and> claim_of s' = claim_of s \<and> cl s' = cl s)"
proof -
  obtain Q where q: "sched_ok s (it # F) Q L" and V: "\<forall>q < 3. V q = map (req_of s) (Q q)"
    using r by (auto simp: refines_def)
  let ?q = "prio_queue (h_flags h)"
  show ?thesis
  proof (rule holds_mono [OF enqueue_links [OF q len]], elim conjE, intro conjI)
    fix s' assume s': "sched_ok s' F (Q(?q := Q ?q @ [it])) L" "tags_of s' = (tags_of s)(it := (c, h))"
      "mem_read (q_body (pool s' it)) 0 (length body) = body" "\<forall>j. j \<noteq> it \<longrightarrow> q_body (pool s' j) = q_body (pool s j)"
    have tag: "q_c (pool s' i) = (if i = it then c else q_c (pool s i))"
      "q_hdr (pool s' i) = (if i = it then h else q_hdr (pool s i))" for i
      using fun_cong [OF s'(2), of i] by (auto simp: tags_of_def split: if_splits)
    have new: "req_of s' it = (c, h, body)" using s'(3) len(1) by (simp add: req_of_def tag body_len_def read_body_def)
    have old: "req_of s' i = req_of s i" if "i \<noteq> it" for i
      using that s'(4) by (simp add: req_of_def tag body_len_def read_body_def)
    have ch: "chained s (it # F) Q L" using q by (simp add: sched_ok_def links_def)
    have "map (req_of s') (Q k) = map (req_of s) (Q k)" if "k < 3" for k
      by (rule map_cong [OF refl old]) (use chained_disjoint(2) [OF ch that] in auto)
    then show "refines s' F (spec_put ?q (c, h, body) V) L"
      unfolding refines_def using s'(1) V new by (intro exI [of _ "Q(?q := Q ?q @ [it])"]) (simp add: spec_put_def del: map_eq_conv)
  qed
qed

lemma refines_run_frame:
  assumes "refines s F V L" and "run_frame s s'" and "pool s' = pool s"
  shows "refines s' F V L"
proof -
  have "req_of s' = req_of s" using assms(3) by (intro ext req_of_item) (simp add: item_of_def)
  then show ?thesis using assms(1) run_frame_sched_ok [OF assms(2)] by (simp add: refines_def)
qed

lemma send_resp_refines:
  assumes "refines s F V L" and "length body \<le> SPIPROXY_MSG_MAX"
  shows "holds (send_resp B c h st body s) (\<lambda>s'. refines s' F V L \<and>
    sent s' = sent s @ [(c_fd (cl s c), resp_msg h st body)] \<and> claim_of s' = claim_of s)"
  by (rule holds_mono [OF send_resp_holds [OF assms(2)]]) (blast intro: refines_run_frame [OF assms(1)])

text \<open>
  C7. Adding a request refines appending it: while the pool has a free item the request is stored
  with its client, header and body at the end of its priority class and nothing is sent; when the
  pool is exhausted the queues stay as they are and the client gets one EBUSY reply.
\<close>

theorem enqueue_refines:
  assumes r: "refines s F V L" and len: "unat (h_len h) = length body" "length body \<le> SPIPROXY_MSG_MAX"
  shows "\<exists>s'. enqueue B c h body s = Some s' \<and> claim_of s' = claim_of s \<and>
    (if F = [] then refines s' F V L \<and> sent s' = sent s @ [(c_fd (cl s c), resp_msg h SPIPROXY_EBUSY [])]
     else refines s' (tl F) (spec_put (prio_queue (h_flags h)) (c, h, body) V) L \<and> sent s' = sent s)"
proof (cases F)
  case Nil
  then have "freel s = None" using r by (auto simp: refines_def sched_ok_def links_def chained_def)
  from enqueue_full [OF this] send_resp_refines [OF r, of "[]" B c h SPIPROXY_EBUSY] Nil show ?thesis by (auto simp: holds_iff)
next
  case (Cons it F')
  with enqueue_put [OF r [unfolded Cons] len, of B c] show ?thesis by (auto simp: holds_iff)
qed

theorem enqueue_refines_witness:
  "\<exists>s'. enqueue sample_hw 0 (request SPIPROXY_STATS 0) [] (connected_daemon ()) = Some s' \<and>
     refines s' [1..<MAX_QITEMS] (spec_put 1 (0, request SPIPROXY_STATS 0, []) (\<lambda>q. [])) []"
proof -
  have "refines (connected_daemon ()) [0..<MAX_QITEMS] (\<lambda>q. []) []"
    unfolding refines_def using connected_sched by (intro exI [of _ "\<lambda>q. []"]) simp
  from enqueue_refines [OF this, of "request SPIPROXY_STATS 0" "[]" sample_hw 0] show ?thesis
    by (auto simp: request_def prio_queue_def const_defs tl_upt)
qed



section \<open>Admission\<close>





end
