(* ===== verification/End_To_End.thy ===== *)
theory End_To_End
  imports Requests Scheduling Cli
begin

text \<open>
  The command-line client against the daemon: every message the client builds is admitted, every
  reply the daemon builds is understood, and a read travels from the client through the queues to
  the device and back.
\<close>

section \<open>The response parser\<close>

text \<open>
  C32. The response parser stays inside both buffers, whatever it is given: it always returns; the
  bytes it copies are at most as many as the caller's buffer holds, and are the beginning of the
  message's body.
\<close>

theorem parse_resp_in_bounds:
  "\<exists>st r diag. parse_resp msg want_seq want_type cap = Some (st, r, diag) \<and>
    (case r of None \<Rightarrow> True | Some bs \<Rightarrow> \<exists>c. cap = Some c \<and> length bs \<le> c \<and> prefix bs (drop sizeof_hdr msg))"
  by (auto simp: parse_resp_def Let_def guard_def take_is_prefix split: option.split)

lemma parse_resp_msg:
  assumes "length body \<le> c" and "length body \<le> SPIPROXY_MSG_MAX"
  shows "parse_resp (resp_msg h st body) (h_seq h) (h_type h) (Some c) = Some (int (unat (status_code st)), Some body, '''')"
proof -
  have "unat (of_nat (length body) :: u32) = length body" using assms(2) by (simp add: unat_of_nat const_defs)
  then show ?thesis using assms by (simp add: parse_resp_def resp_msg_def hdr.length_enc Let_def guard_def)
qed

section \<open>Admission of the client's messages\<close>

lemma cli_msg_admitted:
  assumes "length body \<le> SPIPROXY_MSG_MAX"
  shows "frame_ok (cli_msg ty flags seq body)" and "drop sizeof_hdr (cli_msg ty flags seq body) = body"
    and "dec_hdr (take sizeof_hdr (cli_msg ty flags seq body)) =
      \<lparr>h_ver = SPIPROXY_VER, h_type = type_code ty, h_flags = flags, h_seq = seq, h_len = of_nat (length body)\<rparr>"
proof -
  show "drop sizeof_hdr (cli_msg ty flags seq body) = body" by (simp add: cli_msg_def hdr.length_enc)
  show h: "dec_hdr (take sizeof_hdr (cli_msg ty flags seq body)) =
      \<lparr>h_ver = SPIPROXY_VER, h_type = type_code ty, h_flags = flags, h_seq = seq, h_len = of_nat (length body)\<rparr>"
    by (simp add: cli_msg_def hdr.length_enc)
  have "length (cli_msg ty flags seq body) = sizeof_hdr + length body" by (simp add: cli_msg_def hdr.length_enc)
  then show "frame_ok (cli_msg ty flags seq body)"
    using assms unfolding frame_ok_def h Let_def by (simp add: const_defs unat_of_nat del: of_nat_add)
qed

section \<open>A register access from the client to the device and back\<close>

definition op_result :: "bool \<Rightarrow> spiproxy_op \<Rightarrow> (u32 \<Rightarrow> u32) \<Rightarrow> spiproxy_op" where
  "op_result wr p r = (if wr then p\<lparr>o_write := 1\<rparr> else p\<lparr>o_write := 0, o_val := r (op_addr p)\<rparr>)"

lemma device_send:
  assumes d: "spi_device K regs pend" and send: "\<forall>fd m w. regs (snd (k_send K fd m w)) = regs w"
    and "length body \<le> SPIPROXY_MSG_MAX"
  shows "holds (send_resp (hw_build K R) c h st body s) (\<lambda>s'. regs (world s') = regs (world s) \<and>
    sent s' = sent s @ [(c_fd (cl s c), resp_msg h st body)])"
proof -
  have sw: "sending_world (hw_build K R) (\<lambda>w. regs w = regs (world s))"
    by unfold_locales (use d send in \<open>simp_all add: spi_device_def\<close>)
  from sending_world.send_resp_keeps_P [OF sw, of s c h st body] send_resp_holds [OF assms(3), of "hw_build K R" c h st s]
  show ?thesis by (auto simp: holds_iff returns_iff)
qed

lemma access_device:
  assumes d: "spi_device K regs pend" and send: "\<forall>fd m w. regs (snd (k_send K fd m w)) = regs w"
    and len: "body_len it s = sizeof_op" and body: "read_body it 0 sizeof_op s = enc_op p"
    and sl: "unat (o_slice p) < SLICE_COUNT" and mb: "\<not> mb_inflight s"
  shows "holds (exec_read_write (hw_build K R) wr it s) (\<lambda>s'.
    regs (world s') = (if wr then (regs (world s))(op_addr p := o_val p) else regs (world s)) \<and>
    sent s' = sent s @ [reply_of it SPIPROXY_OK (enc_op (op_result wr p (regs (world s)))) s])"
proof -
  let ?B = "hw_build K R" and ?c = "q_c (pool s it)" and ?p = "op_result wr p (regs (world s))"
  have "\<exists>s1. exec_op ?B (Some ?c) (p\<lparr>o_write := of_bool wr\<rparr>) s = Some (SPIPROXY_OK, ?p, s1) \<and>
    regs (world s1) = (if wr then (regs (world s))(op_addr p := o_val p) else regs (world s))"
    using device_op [OF d, of "p\<lparr>o_write := of_bool wr\<rparr>" s "Some ?c" R] sl mb by (auto simp: op_addr_def op_result_def)
  then obtain s1 where s1: "exec_op ?B (Some ?c) (p\<lparr>o_write := of_bool wr\<rparr>) s = Some (SPIPROXY_OK, ?p, s1)"
    "regs (world s1) = (if wr then (regs (world s))(op_addr p := o_val p) else regs (world s))" by blast
  have io: "io_frame s s1" using hw.exec_op_holds [of K R "Some ?c" "p\<lparr>o_write := of_bool wr\<rparr>" s] s1(1) by (simp add: holds_iff)
  define s2 where "s2 = add_n_ops ?c 1 (write_body it 0 (enc_op ?p) s1)"
  have "read_body it 0 sizeof_op s2 = enc_op ?p"
    by (simp add: s2_def read_body_def add_n_ops_def write_body_def opf.length_enc)
  then have e: "exec_read_write ?B wr it s = send_resp ?B ?c (q_hdr (pool s it)) SPIPROXY_OK (enc_op ?p) s2"
    using len s1(1) by (simp add: exec_read_write_def Let_def s2_def body)
  have s2: "sent s2 = sent s" "c_fd (cl s2 ?c) = c_fd (cl s ?c)" "world s2 = world s1"
    using io by (simp_all add: s2_def add_n_ops_def write_body_def io_frame_iff)
  have l: "length (enc_op ?p) \<le> SPIPROXY_MSG_MAX" by (simp add: opf.length_enc const_defs)
  show ?thesis unfolding e by (rule holds_mono [OF device_send [OF d send l]]) (simp add: s2 s1(2) reply_of_def)
qed

lemma enqueue_device:
  assumes "spi_device K regs pend" and "freel s = Some it" and "enqueue (hw_build K R) c h body s = Some s'"
  shows "regs (world s') = regs (world s)"
  using assms(2,3) by (auto simp: enqueue_def Let_def guard_def device_logs(1,2) [OF assms(1)] link_tail_def set_next_def
      split: if_splits option.splits)

lemma drain_only_item:
  assumes ok: "sched_ok s F ((\<lambda>q. [])(k := [it])) []" and k: "k < 3" and e: "item_eligible s it"
    and x: "\<And>W s'. relinked s s' \<Longrightarrow> \<exists>s2. exec_item W B it s' = Some (Ran s2) \<and> run_frame s' s2 \<and> P s2"
    and P: "\<And>s s'. relinked s s' \<Longrightarrow> P s = P s'"
  shows "\<exists>s'. drain_queues (Suc (Suc n)) B (Suc b) s = Some (Ran s') \<and> P s'"
proof -
  have "pick_spec (item_eligible s) ((\<lambda>q. [])(k := [it])) [0, 1, 2] = Some (k, it)"
    using k e by (auto simp: less_3 pick_spec.simps)
  with dequeue_holds [OF ok] obtain s1 where s1: "dequeue s = Some (Some (it, s1))" "sched_ok s1 F (\<lambda>q. []) [it]" "relinked s s1"
    by (auto simp: holds_iff fun_upd_idem)
  from x [OF s1(3), of "mb_wait (Suc n) B"] obtain s2 where
    s2: "exec_item (mb_wait (Suc n) B) B it s1 = Some (Ran s2)" "run_frame s1 s2" "P s2" by blast
  have "sched_ok (free_item it s2) (it # F) (\<lambda>q. []) []"
    using s1(2) run_frame_sched_ok [OF s2(2)] free_item_sched_ok by blast
  from dequeue_holds [OF this] have "dequeue (free_item it s2) = Some None" by (simp add: pick_spec.simps holds_iff)
  then show ?thesis using s1(1) s2(1,3) P [OF free_item_relinked, of s2 it] by simp
qed

lemma exec_item_access:
  assumes d: "spi_device K regs pend" and send: "\<forall>fd m w. regs (snd (k_send K fd m w)) = regs w"
    and h: "q_hdr (pool s it) = \<lparr>h_ver = v, h_type = type_code (if wr then SPIPROXY_WRITE else SPIPROXY_READ), h_flags = fl,
      h_seq = seq, h_len = of_nat sizeof_op\<rparr>"
    and body: "read_body it 0 sizeof_op s = enc_op p" and sl: "unat (o_slice p) < SLICE_COUNT" and mb: "\<not> mb_inflight s"
  shows "\<exists>s'. exec_item W (hw_build K R) it s = Some (Ran s') \<and> run_frame s s' \<and>
    regs (world s') = (if wr then (regs (world s))(op_addr p := o_val p) else regs (world s)) \<and>
    sent s' = sent s @ [reply_of it SPIPROXY_OK (enc_op (op_result wr p (regs (world s)))) s]"
proof -
  let ?s = "enter_item it s"
  have b: "body_len it ?s = sizeof_op" "read_body it 0 sizeof_op ?s = enc_op p"
    using body by (simp_all add: body_len_def h read_body_def const_defs)
  from access_device [OF d send b sl, of R wr] mb hw.exec_read_write_holds [of K R wr it ?s]
  obtain s' where s': "exec_read_write (hw_build K R) wr it ?s = Some s'" "answers it ?s s'"
    "regs (world s') = (if wr then (regs (world ?s))(op_addr p := o_val p) else regs (world ?s))"
    "sent s' = sent ?s @ [reply_of it SPIPROXY_OK (enc_op (op_result wr p (regs (world ?s)))) ?s]"
    by (auto simp: holds_iff)
  have w: "world ?s = world s" by (simp add: enter_item_def Let_def)
  have "exec_item W (hw_build K R) it s = Some (Ran s')"
    using s'(1) by (cases wr) (simp_all add: exec_item_def h Let_def Dispatch.ran_def type_of_code_def)
  moreover have "run_frame s s'" using hw.answers_enter [OF s'(2)] by (auto simp: answers_def)
  ultimately show ?thesis using s'(3,4) by (simp add: w reply_of_def)
qed

text \<open>
  C4. A register access from the command-line client to the device and back: the daemon, idle
  and unclaimed, admits the datagram the client builds for a read or a write, whatever its
  priority; serving the queues then sends that client exactly one datagram, which the client's own
  parser accepts as an OK answer to its request, carrying for a read the contents of the addressed
  register; the device's registers are unchanged by a read, and a write changes the addressed
  register to the value given and no other.
\<close>

theorem register_access_end_to_end:
  assumes d: "spi_device K regs pend" and send: "\<forall>fd m w. regs (snd (k_send K fd m w)) = regs w"
    and ok: "sched_ok s (it # F) (\<lambda>q. []) []" and idle: "claim_owner s = None" "\<not> mb_inflight s"
    and sl: "unat (o_slice p) < SLICE_COUNT" and ty: "ty = (if wr then SPIPROXY_WRITE else SPIPROXY_READ)"
  shows "\<exists>s1 s2 m. client_frame (hw_build K R) c (cli_msg ty fl seq (enc_op p)) s = Some s1 \<and>
    drain_queues (Suc (Suc n)) (hw_build K R) (Suc b) s1 = Some (Ran s2) \<and> sent s2 = sent s @ [(c_fd (cl s c), m)] \<and>
    parse_resp m seq (type_code ty) (Some sizeof_op) = Some (0, Some (enc_op (op_result wr p (regs (world s)))), []) \<and>
    regs (world s2) = (if wr then (regs (world s))(op_addr p := o_val p) else regs (world s))"
proof -
  let ?B = "hw_build K R" and ?s = "s\<lparr>cl := (cl s)(c := (cl s c)\<lparr>c_n_msgs := c_n_msgs (cl s c) + 1\<rparr>)\<rparr>"
  define h where "h = \<lparr>h_ver = SPIPROXY_VER, h_type = type_code ty, h_flags = fl, h_seq = seq, h_len = of_nat sizeof_op\<rparr>"
  let ?m = "resp_msg h SPIPROXY_OK (enc_op (op_result wr p (regs (world s))))"
  have l: "length (enc_op p) = sizeof_op" "unat (h_len h) = length (enc_op p)" "length (enc_op p) \<le> SPIPROXY_MSG_MAX"
    by (simp_all add: opf.length_enc h_def const_defs)
  have ok': "sched_ok ?s (it # F) (\<lambda>q. []) []" using ok run_frame_sched_ok [OF n_msgs_run] by blast
  have cf: "client_frame ?B c (cli_msg ty fl seq (enc_op p)) s = enqueue ?B c h (enc_op p) ?s"
    by (simp add: client_frame_def cli_msg_admitted [OF l(3)] l(1) h_def Let_def)
  from enqueue_links [OF ok' l(2,3), of ?B c] obtain s1 where
    s1: "enqueue ?B c h (enc_op p) ?s = Some s1" "sched_ok s1 F ((\<lambda>q. [])(prio_queue fl := [it])) []"
      "tags_of s1 = (tags_of ?s)(it := (c, h))" "mem_read (q_body (pool s1 it)) 0 sizeof_op = enc_op p"
      "claim_of s1 = claim_of ?s" "mb_inflight s1 = mb_inflight s" "sent s1 = sent s" "cl s1 = cl ?s"
    by (auto simp: holds_iff h_def l(1))
  have tag: "q_c (pool s1 it) = c" "q_hdr (pool s1 it) = h" using fun_cong [OF s1(3), of it] by (simp_all add: tags_of_def)
  have fr: "freel ?s = Some it" using ok by (simp add: sched_ok_def links_def chained_def)
  have w: "regs (world s1) = regs (world s)" using enqueue_device [OF d fr s1(1)] by simp
  define P where "P s2 \<longleftrightarrow> sent s2 = sent s @ [(c_fd (cl s c), ?m)] \<and>
    regs (world s2) = (if wr then (regs (world s))(op_addr p := o_val p) else regs (world s))" for s2 :: "'a daemon"
  have x: "\<exists>s2. exec_item W ?B it s' = Some (Ran s2) \<and> run_frame s' s2 \<and> P s2" if r: "relinked s1 s'" for W s'
  proof -
    from r have i: "item_of s' it = item_of s1 it" by (simp add: relinked_def)
    have s': "q_hdr (pool s' it) = h" "q_c (pool s' it) = c" "read_body it 0 sizeof_op s' = enc_op p"
      using i tag s1(4) by (simp_all add: item_of_def read_body_def)
    from r have e: "mb_inflight s' = mb_inflight s1" "sent s' = sent s1" "cl s' = cl s1" "world s' = world s1"
      by (auto elim!: relinkedE)
    from exec_item_access [OF d send s'(1) [unfolded h_def ty] s'(3) sl, of W R] e idle(2) s1(6,7,8) w s'(1,2)
    show ?thesis by (auto simp: P_def reply_of_def)
  qed
  have el: "item_eligible s1 it" using s1(5) idle(1) by (simp add: item_eligible_def claim_of_def)
  have k: "prio_queue fl < 3" by (simp add: prio_queue_def)
  have "P a = P a'" if "relinked a a'" for a a' using that by (auto simp: P_def elim!: relinkedE)
  from drain_only_item [where P = P, OF s1(2) k el x this] obtain s2 where
    "drain_queues (Suc (Suc n)) ?B (Suc b) s1 = Some (Ran s2)" "P s2" by blast
  then show ?thesis
    using cf s1(1) parse_resp_msg [of "enc_op (op_result wr p (regs (world s)))" sizeof_op h SPIPROXY_OK]
    by (auto simp: P_def opf.length_enc h_def const_defs)
qed

theorem register_access_end_to_end_witness:
  "\<exists>s1 s2 m. client_frame (hw_build mem_kernel sample_regs) 0 (cli_msg SPIPROXY_READ 2 9 (enc_op (sample_op 0 1 2 0)))
      (connected_daemon (\<lambda>a. a + 5, 0)) = Some s1 \<and>
    drain_queues 2 (hw_build mem_kernel sample_regs) 1 s1 = Some (Ran s2) \<and> sent s2 = [(5, m)] \<and>
    parse_resp m 9 1 (Some sizeof_op) = Some (0, Some (enc_op (sample_op 0 1 2 0x10007)), [])"
proof -
  have p: "op_result False (sample_op 0 1 2 0) (\<lambda>a. a + 5) = sample_op 0 1 2 0x10007"
    by (simp add: op_result_def op_addr_def sample_op_def spi_addr_def const_defs)
  have sl: "unat (o_slice (sample_op 0 1 2 0)) < SLICE_COUNT" by (simp add: sample_op_def const_defs)
  from register_access_end_to_end [where wr = False and R = sample_regs and c = 0 and fl = 2 and seq = 9 and n = 0 and b = 0,
      OF mem_kernel_device _ connected_sched [of "(\<lambda>a. a + 5, 0)", unfolded pool_cons] _ _ sl refl] p
  show ?thesis by (auto simp: connected_fields sample_client_def mem_kernel_def sample_kernel_def numeral_2_eq_2)
qed

section \<open>A mailbox reply the client cannot hold\<close>

lemma mb_print_None: "mb_print resp is s = None \<longleftrightarrow> (\<exists>i \<in> set is. SPIPROXY_MB_MAX \<le> i)"
  by (induction "is" arbitrary: s) (auto simp: guard_def)

lemma mb_args_length: "mb_args as bs s = Inr xs \<Longrightarrow> length bs \<le> SPIPROXY_MB_MAX \<Longrightarrow> length xs \<le> SPIPROXY_MB_MAX"
  by (induction as bs s rule: mb_args.induct) (auto split: if_splits sum.splits)

lemma xfer_answered:
  assumes "cs_connected s" and "length rq \<le> SPIPROXY_MSG_MAX" and "length body \<le> c" and "length body \<le> SPIPROXY_MSG_MAX"
    and "\<forall>m w. fst (ch_send H m w)" and "\<forall>w. fst (ch_recv H w) = Some (resp_msg h st body)"
    and "h_seq h = cs_seq s + 1" and "h_type h = type_code ty"
  shows "\<exists>s'. xfer H ty flags rq (Some c) s = Some (int (unat (status_code st)), Some body, s')"
proof -
  let ?m = "resp_msg h st body"
  have "take (sizeof_hdr + SPIPROXY_MSG_MAX) ?m = ?m" using assms(4) by (simp add: resp_msg_def hdr.length_enc)
  moreover obtain w where "ch_send H (cli_msg ty flags (cs_seq s + 1) rq) (cs_world s) = (True, w)"
    using assms(5) by (metis prod.collapse)
  moreover obtain w' where "ch_recv H w = (Some ?m, w')" using assms(6) by (metis prod.collapse)
  ultimately show ?thesis
    using assms(1,2) parse_resp_msg [OF assms(3,4), of h st] unfolding assms(7,8)
    by (simp add: xfer_def cli_connect_def Let_def guard_def)
qed


definition lying_host :: "unit cli_host" where
  "lying_host = \<lparr>ch_clock = (\<lambda>w. ((0, 0), w)), ch_usleep = (\<lambda>d w. w), ch_connect = (\<lambda>p w. (True, w)), ch_send = (\<lambda>m w. (True, w)),
     ch_recv = (\<lambda>w. (Some (resp_msg ((request SPIPROXY_MAILBOX 8)\<lparr>h_seq := 1\<rparr>) SPIPROXY_OK
       (enc_mb (sample_mb\<lparr>mb_payload_len := 0xFFFF\<rparr>) @ [])), w)),
     ch_strerror = (\<lambda>w. []), ch_stack = (\<lambda>w i. 0), ch_calloc = (\<lambda>n w. True), ch_qsort = (\<lambda>f xs. xs)\<rparr>"


end
