(* ===== verification/Mailbox_Wire.thy ===== *)
theory Mailbox_Wire
  imports Claiming
begin

text \<open>
  The mailbox packet between the daemon and the device's microcontroller: the checksum against a
  shift-register reference and what it detects; the packet a request leaves in the command
  registers; the response recovered from the response registers, and damaged responses refused.
\<close>

section \<open>Checksum\<close>

text \<open>
  CRC-CCITT as a shift register with feedback into stages 0, 5 and 12, all stages set at the start,
  fed most significant bit first.
\<close>

fun lfsr :: "(nat \<Rightarrow> bool) \<Rightarrow> bool list \<Rightarrow> nat \<Rightarrow> bool" where
  "lfsr r [] = r"
| "lfsr r (b # bs) = lfsr (\<lambda>n. (0 < n \<and> r (n - 1)) \<noteq> (r 15 \<noteq> b \<and> n \<in> {0, 5, 12})) bs"

definition pkt_bits :: "u8 list \<Rightarrow> bool list" where
  "pkt_bits p = concat (map byte_bits p)"

lemma lfsr_cong: "(\<And>n. n < 16 \<Longrightarrow> r n = r' n) \<Longrightarrow> n < 16 \<Longrightarrow> lfsr r bs n = lfsr r' bs n"
proof (induction bs arbitrary: r r')
  case (Cons b bs)
  show ?case
    unfolding lfsr.simps
  proof (rule Cons.IH [OF _ Cons.prems(2)])
    fix n :: nat assume "n < 16"
    then show "((0 < n \<and> r (n - 1)) \<noteq> (r 15 \<noteq> b \<and> n \<in> {0, 5, 12})) = ((0 < n \<and> r' (n - 1)) \<noteq> (r' 15 \<noteq> b \<and> n \<in> {0, 5, 12}))"
      using Cons.prems(1) [of "n - 1"] Cons.prems(1) [of 15] by simp
  qed
qed simp

lemma bit_crc_bit:
  assumes "n < 16"
  shows "bit (crc_bit c b) n \<longleftrightarrow> (0 < n \<and> bit c (n - 1)) \<noteq> (bit c 15 \<noteq> b \<and> n \<in> {0, 5, 12})"
proof -
  have "bit (c XOR (if b then 0x8000 else 0)) m \<longleftrightarrow> bit c m \<noteq> (b \<and> m = 15)" for m
    using bit_0x8000 [of m] by (simp only: bit_xor_iff) (cases b; simp)
  then have "bit (crc_bit c b) n \<longleftrightarrow> (0 < n \<and> (bit c (n - 1) \<noteq> (b \<and> n - 1 = 15))) \<noteq> ((bit c 15 \<noteq> b) \<and> n \<in> {0, 5, 12})"
    unfolding crc_bit_def bit_crc_shift [OF assms] by simp
  moreover have "n - 1 \<noteq> 15" using assms by simp
  ultimately show ?thesis by simp
qed

lemma crc_bits_lfsr: "n < 16 \<Longrightarrow> bit (crc_bits c bs) n = lfsr (bit c) bs n"
proof (induction bs arbitrary: c)
  case (Cons b bs)
  have "bit (crc_bits c (b # bs)) n = lfsr (bit (crc_bit c b)) bs n"
    using Cons by (simp add: crc_bits_def)
  also have "\<dots> = lfsr (bit c) (b # bs) n"
    using Cons.prems unfolding lfsr.simps by (intro lfsr_cong) (simp_all only: bit_crc_bit)
  finally show ?case .
qed (simp add: crc_bits_def)

lemma crc_byte_unroll:
  "crc_byte c b = crc_shift (crc_shift (crc_shift (crc_shift (crc_shift (crc_shift (crc_shift (crc_shift (c XOR push_bit 8 (ucast b)))))))))"
  by (simp add: crc_byte_def numeral_eq_Suc)

text \<open>
  C13. The byte-wise checksum routine computes CRC-CCITT: its sixteen bits are those of the shift
  register after all bits of the packet. (On the ASCII digits 1 to 9 this is the standard check value 0x29B1.)
\<close>

theorem crc16_is_crc_ccitt:
  "map (bit (crc16_ccitt p)) [0..<16] = map (lfsr (\<lambda>n. True) (pkt_bits p)) [0..<16] \<and>
   crc16_ccitt [0x31, 0x32, 0x33, 0x34, 0x35, 0x36, 0x37, 0x38, 0x39] = 0x29B1"
proof
  have "bit (crc16_ccitt p) n = lfsr (\<lambda>n. True) (pkt_bits p) n" if "n < 16" for n
  proof -
    have ones: "bit (0xffff :: u16) k" if "k < 16" for k
    proof -
      have "(0xffff :: u16) = mask 16" by (simp add: mask_eq_exp_minus_1)
      then show ?thesis using that by (simp only: bit_mask_iff possible_bit_word) simp
    qed
    show ?thesis
      unfolding crc16_ccitt_bits pkt_bits_def crc_bits_lfsr [OF that] by (rule lfsr_cong) (use that ones in auto)
  qed
  then show "map (bit (crc16_ccitt p)) [0..<16] = map (lfsr (\<lambda>n. True) (pkt_bits p)) [0..<16]" by simp
  show "crc16_ccitt [0x31, 0x32, 0x33, 0x34, 0x35, 0x36, 0x37, 0x38, 0x39] = 0x29B1"
    by (simp add: crc16_ccitt_def crc_byte_unroll crc_shift_def)
qed

section \<open>Mailbox registers of a device\<close>

definition mbx_addr :: "u8 \<Rightarrow> u16 \<Rightarrow> u32" where
  "mbx_addr sl r = take_bit 23 (spi_addr sl MMD_GLOBAL r)"

text \<open>The words a device presents in its response registers.\<close>

definition response_words :: "(u32 \<Rightarrow> u32) \<Rightarrow> u8 \<Rightarrow> nat \<Rightarrow> u32 list" where
  "response_words r sl m = map (\<lambda>k. r (mbx_addr sl (of_nat (MB_RESP_ADDR + k)))) [0..<m]"

lemma device_mb_rd:
  assumes "spi_device K regs pend"
  shows "\<exists>s'. mb_rd (hw_build K R) sl r v s = (Some (regs (world s) (mbx_addr sl r)), s') \<and> regs (world s') = regs (world s)"
  by (cases "spi_read_reg K R sl MMD_GLOBAL r s")
    (auto simp: mb_rd_def Let_def mbx_addr_def device_logs [OF assms] dest: device_read [OF assms])

lemma device_mb_wr:
  assumes "spi_device K regs pend"
  shows "\<exists>s'. mb_wr (hw_build K R) sl r v s = (True, s') \<and> regs (world s') = (regs (world s))(mbx_addr sl r := v)"
  by (cases "spi_write_reg K sl MMD_GLOBAL r v s")
    (auto simp: mb_wr_def Let_def mbx_addr_def device_logs [OF assms] dest: device_write [OF assms])

lemma device_rd_seq:
  assumes "spi_device K regs pend"
  shows "\<exists>s'. mb_rd_seq (hw_build K R) sl rs v s = (Some (map (\<lambda>r. regs (world s) (mbx_addr sl r)) rs), s') \<and>
    regs (world s') = regs (world s)"
proof (induction rs arbitrary: v s)
  case (Cons r rs)
  obtain s1 where s1: "mb_rd (hw_build K R) sl r v s = (Some (regs (world s) (mbx_addr sl r)), s1)" "regs (world s1) = regs (world s)"
    using device_mb_rd [OF assms] by blast
  with Cons.IH [of "regs (world s) (mbx_addr sl r)" s1] show ?case by auto
qed simp

lemma device_finish:
  assumes d: "spi_device K regs pend"
    and img: "concat (map le32 (response_words (regs (world s)) sl ((length p + 3) div 4))) = p @ padding"
    and len: "un_le16 (p ! 2) (p ! 3) = of_nat (length p)" and bnd: "6 \<le> length p" "length p \<le> 1024"
  shows "\<exists>s'. mb_finish (hw_build K R) sl pkt v s = (case mb_check p of (st, cmd, resp) \<Rightarrow> Some (st, cmd, resp, s')) \<and>
    regs (world s') = (regs (world s))(mbx_addr sl MB_FLAG := MB_CLR_RESP) \<and> \<not> mb_inflight s'"
proof -
  let ?rs = "map (\<lambda>k. of_nat (MB_RESP_ADDR + k)) [0..<(length p + 3) div 4]"
  obtain s1 where s1: "mb_rd_seq (hw_build K R) sl ?rs v s = (Some (map (\<lambda>r. regs (world s) (mbx_addr sl r)) ?rs), s1)"
    "regs (world s1) = regs (world s)" using device_rd_seq [OF d] by blast
  then have rd: "mb_rd_seq (hw_build K R) sl ?rs v s = (Some (response_words (regs (world s)) sl ((length p + 3) div 4)), s1)"
    by (simp add: response_words_def comp_def)
  obtain s2 where s2: "mb_wr (hw_build K R) sl MB_FLAG MB_CLR_RESP s1 = (True, s2)"
    "regs (world s2) = (regs (world s1))(mbx_addr sl MB_FLAG := MB_CLR_RESP)" using device_mb_wr [OF d] by blast
  from mb_finish_check [OF rd img len bnd refl, of pkt] s1(2) s2 show ?thesis
    by (intro exI [of _ "s2\<lparr>mb_inflight := False\<rparr>"]) simp
qed

lemma le16_inject: "le16 v = le16 w \<longleftrightarrow> v = w"
  by (metis le16_def le16_eq_iff)

lemma mbx_addr_inject: "mbx_addr sl r = mbx_addr sl r' \<longleftrightarrow> r = r'"
  by (metis mbx_addr_def addr_fields_take(3) addr_reg_addr)

lemma device_wr_seq:
  assumes "spi_device K regs pend" and "distinct (map fst xs)"
  shows "\<exists>s'. mb_wr_seq (hw_build K R) sl xs s = (True, s') \<and> mb_inflight s' = mb_inflight s \<and>
    (\<forall>(r, v) \<in> set xs. regs (world s') (mbx_addr sl r) = v) \<and>
    (\<forall>r. r \<notin> fst ` set xs \<longrightarrow> regs (world s') (mbx_addr sl r) = regs (world s) (mbx_addr sl r))"
  using assms(2)
proof (induction xs arbitrary: s)
  case (Cons x xs)
  obtain r v where x: "x = (r, v)" by fastforce
  obtain s1 where s1: "mb_wr (hw_build K R) sl r v s = (True, s1)" "regs (world s1) = (regs (world s))(mbx_addr sl r := v)"
    using device_mb_wr [OF assms(1)] by blast
  have mb: "mb_inflight s1 = mb_inflight s" using hw.mb_wr_frame [OF s1(1)] by simp
  from Cons.IH [of s1] Cons.prems obtain s' where s': "mb_wr_seq (hw_build K R) sl xs s1 = (True, s')" "mb_inflight s' = mb_inflight s1"
    "\<forall>(r, v) \<in> set xs. regs (world s') (mbx_addr sl r) = v"
    "\<forall>r. r \<notin> fst ` set xs \<longrightarrow> regs (world s') (mbx_addr sl r) = regs (world s1) (mbx_addr sl r)" by auto
  then show ?case using Cons.prems s1 mb x by (intro exI [of _ s']) (auto simp: mbx_addr_inject)
qed simp

lemma device_ring:
  assumes d: "spi_device K regs pend" and "mb_inflight s"
  shows "\<exists>v' s'. mb_ring (hw_build K R) sl v s = (None, v', s') \<and> mb_inflight s' \<and>
    regs (world s') = (regs (world s))(mbx_addr sl MB_MCU_MASK := regs (world s) (mbx_addr sl MB_MCU_MASK) OR 1,
      mbx_addr sl MB_FLAG := MB_SET_REQ)"
proof -
  let ?m = "regs (world s) (mbx_addr sl MB_MCU_MASK)"
  obtain s1 where s1: "mb_rd (hw_build K R) sl MB_MCU_MASK v s = (Some ?m, s1)" "regs (world s1) = regs (world s)"
    using device_mb_rd [OF d] by blast
  obtain s2 where s2: "mb_wr (hw_build K R) sl MB_MCU_MASK (?m OR 1) s1 = (True, s2)"
    "regs (world s2) = (regs (world s1))(mbx_addr sl MB_MCU_MASK := ?m OR 1)" using device_mb_wr [OF d] by blast
  obtain s3 where s3: "mb_wr (hw_build K R) sl MB_FLAG MB_SET_REQ s2 = (True, s3)"
    "regs (world s3) = (regs (world s2))(mbx_addr sl MB_FLAG := MB_SET_REQ)" using device_mb_wr [OF d] by blast
  have "mb_inflight s3" using assms(2) hw.mb_rd_frame [OF s1(1)] hw.mb_wr_frame [OF s2(1)] hw.mb_wr_frame [OF s3(1)] by simp
  with s1 s2 s3 show ?thesis by (simp add: mb_ring_def)
qed

lemma cmd_regs:
  assumes "n \<le> 256"
  shows "distinct (map (\<lambda>k. of_nat (MB_CMD_ADDR + k) :: u16) [0..<n])"
    and "k < n \<Longrightarrow> of_nat (MB_CMD_ADDR + k) \<noteq> MB_FLAG" and "k < n \<Longrightarrow> of_nat (MB_CMD_ADDR + k) \<noteq> MB_MCU_MASK"
proof -
  have u: "unat (of_nat (MB_CMD_ADDR + k) :: u16) = 0xd800 + k" if "k < n" for k
    using that assms by (simp add: unat_of_nat MB_CMD_ADDR_def del: of_nat_add)
  have "inj_on (\<lambda>k. of_nat (MB_CMD_ADDR + k) :: u16) {0..<n}"
  proof (rule inj_onI)
    fix i j assume "i \<in> {0..<n}" "j \<in> {0..<n}" and "(of_nat (MB_CMD_ADDR + i) :: u16) = of_nat (MB_CMD_ADDR + j)"
    then have "unat (of_nat (MB_CMD_ADDR + i) :: u16) = unat (of_nat (MB_CMD_ADDR + j) :: u16)" by simp
    then show "i = j" using u \<open>i \<in> _\<close> \<open>j \<in> _\<close> by simp
  qed
  then show "distinct (map (\<lambda>k. of_nat (MB_CMD_ADDR + k) :: u16) [0..<n])" by (simp add: distinct_map)
  have "unat MB_FLAG = 0xda00" "unat MB_MCU_MASK = 0xda01" by (simp_all add: const_defs)
  moreover have "unat (of_nat (MB_CMD_ADDR + k) :: u16) < 0xd900" if "k < n" for k using u [OF that] that assms by linarith
  ultimately show "of_nat (MB_CMD_ADDR + k) \<noteq> MB_FLAG" "of_nat (MB_CMD_ADDR + k) \<noteq> MB_MCU_MASK" if "k < n"
    using that by fastforce+
qed

section \<open>Properties\<close>

text \<open>Registers that present given bytes as a response.\<close>

definition presenting :: "u8 list \<Rightarrow> u32 \<Rightarrow> u32" where
  "presenting p a = word_at (\<lambda>i. if i < length p then p ! i else 0) (4 * (unat (addr_reg a) - MB_RESP_ADDR))"

lemma presenting_words:
  assumes "length p \<le> 1024"
  shows "concat (map le32 (response_words (presenting p) sl ((length p + 3) div 4))) =
    p @ replicate (4 * ((length p + 3) div 4) - length p) 0"
proof -
  let ?f = "\<lambda>i. if i < length p then p ! i else 0" and ?m = "(length p + 3) div 4"
  have "unat (of_nat (MB_RESP_ADDR + k) :: u16) = MB_RESP_ADDR + k" if "k < ?m" for k
    using that assms by (simp add: unat_of_nat MB_RESP_ADDR_def del: of_nat_add)
  then have "response_words (presenting p) sl ?m = map (\<lambda>k. word_at ?f (4 * k)) [0..<?m]"
    by (auto simp: response_words_def presenting_def mbx_addr_def addr_reg_addr simp del: of_nat_add)
  then have "concat (map le32 (response_words (presenting p) sl ?m)) = mem_read ?f 0 (4 * ?m)"
    using words_image [of ?f ?m] by (simp add: comp_def)
  also have "\<dots> = p @ replicate (4 * ?m - length p) 0"
    by (rule nth_equalityI) (auto simp: nth_append)
  finally show ?thesis .
qed

text \<open>
  C14. A response is received as sent: when the device presents the packet of some id and payload
  of up to 1018 bytes in its response registers, with any padding to whole words, reading the response
  yields OK with that id and payload, acknowledges it in the flag register and ends the
  transaction.
\<close>

theorem response_received:
  assumes "spi_device K regs pend" and "length payload \<le> SPIPROXY_MB_MAX"
    and "concat (map le32 (response_words (regs (world s)) sl ((6 + length payload + 3) div 4))) = mb_pkt cmd b payload @ padding"
  shows "\<exists>s'. mb_finish (hw_build K R) sl pkt v s = Some (SPIPROXY_OK, cmd, payload, s') \<and>
    regs (world s') = (regs (world s))(mbx_addr sl MB_FLAG := MB_CLR_RESP) \<and> \<not> mb_inflight s'"
  using device_finish [OF assms(1), of s sl "mb_pkt cmd b payload" padding R pkt v] assms(2,3)
  by (simp add: mb_pkt_len_field mb_check_pkt SPIPROXY_MB_MAX_def)

theorem response_received_witness:
  "\<exists>s'. mb_finish (hw_build mem_kernel sample_regs) 0 (\<lambda>i. 0) 0 (connected_daemon (presenting (mb_pkt 2 0 [9]), 0)) =
    Some (SPIPROXY_OK, 2, [9], s') \<and> \<not> mb_inflight s'"
proof -
  let ?s = "connected_daemon (presenting (mb_pkt 2 0 [9]), 0 :: u32)"
  have "concat (map le32 (response_words (fst (world ?s)) 0 ((6 + length [9::u8] + 3) div 4))) = mb_pkt 2 0 [9] @ [0]"
    using presenting_words [of "mb_pkt 2 0 [9]" 0] by (simp add: connected_fields)
  from response_received [OF mem_kernel_device _ this, of sample_regs "\<lambda>i. 0" 0] show ?thesis by (auto simp: SPIPROXY_MB_MAX_def)
qed

text \<open>
  C15. A damaged response is refused: when the bytes presented differ from those of a packet in at
  most sixteen consecutive bits of its header and payload, the length field being intact, reading the
  response yields ECRC and no payload; the device is still acknowledged and the transaction ended.
\<close>

theorem damaged_response_refused:
  assumes "spi_device K regs pend" and "p = mb_pkt cmd b payload" and "length payload \<le> SPIPROXY_MB_MAX"
    and "pkt_bits (take (length p - 2) p) = pre @ xs @ post" and "pkt_bits (take (length p - 2) q) = pre @ ys @ post"
    and "length xs = length ys" and "length ys \<le> 16" and "xs \<noteq> ys"
    and "length q = length p" and "drop (length p - 2) q = drop (length p - 2) p" and "q ! 2 = p ! 2" and "q ! 3 = p ! 3"
    and "concat (map le32 (response_words (regs (world s)) sl ((length q + 3) div 4))) = q @ padding"
  shows "\<exists>s'. mb_finish (hw_build K R) sl pkt v s = Some (SPIPROXY_ECRC, 0, [], s') \<and>
    regs (world s') = (regs (world s))(mbx_addr sl MB_FLAG := MB_CLR_RESP) \<and> \<not> mb_inflight s'"
proof -
  have p: "le16 (crc16_ccitt (take (length p - 2) p)) = drop (length p - 2) p"
    unfolding assms(2) by (simp add: mb_pkt_def Let_def le16_def)
  have "crc16_ccitt (take (length p - 2) q) \<noteq> crc16_ccitt (take (length p - 2) p)"
    using crc_bits_burst [OF assms(6,7)] assms(4,5,8) unfolding crc16_ccitt_bits pkt_bits_def [symmetric] by metis
  then have "le16 (crc16_ccitt (take (length q - 2) q)) \<noteq> drop (length q - 2) q"
    using p assms(9,10) by (metis le16_inject)
  then have c: "mb_check q = (SPIPROXY_ECRC, 0, [])" by (simp add: mb_check_def Let_def)
  have "un_le16 (q ! 2) (q ! 3) = of_nat (length q)" "6 \<le> length q" "length q \<le> 1024"
    using assms(2,3,9,11,12) mb_pkt_len_field [of cmd b payload] by (simp_all add: SPIPROXY_MB_MAX_def)
  from device_finish [OF assms(1,13) this] c show ?thesis by simp
qed

theorem damaged_response_refused_witness:
  "\<exists>s'. mb_finish (hw_build mem_kernel sample_regs) 0 (\<lambda>i. 0) 0 (connected_daemon (presenting ((mb_pkt 2 0 [9])[4 := 8]), 0)) =
    Some (SPIPROXY_ECRC, 0, [], s') \<and> \<not> mb_inflight s'"
proof -
  let ?p = "mb_pkt 2 0 [9]" and ?s = "connected_daemon (presenting ((mb_pkt 2 0 [9])[4 := 8]), 0 :: u32)"
  let ?q = "?p[4 := 8]"
  obtain a b where p: "?p = [2, 0, 7, 0, 9, a, b]" by (simp add: mb_pkt_def Let_def le16_def)
  have "concat (map le32 (response_words (fst (world ?s)) 0 ((length ?q + 3) div 4))) = ?q @ [0]"
    using presenting_words [of ?q 0] by (simp add: connected_fields)
  moreover have "bits_word (byte_bits 9) \<noteq> bits_word (byte_bits 8)" by (simp add: byte_bits_word)
  then have "byte_bits 9 \<noteq> byte_bits 8" by metis
  moreover have "length (byte_bits x) = 8" for x by (simp add: byte_bits_def)
  moreover note damaged_response_refused [OF mem_kernel_device refl, of "[9]" 2 0 "pkt_bits [2, 0, 7, 0]" "byte_bits 9" "[]" ?q "byte_bits 8"
      ?s 0 "[0]" sample_regs "\<lambda>i. 0" 0]
  ultimately show ?thesis by (auto simp: p pkt_bits_def SPIPROXY_MB_MAX_def)
qed



end
