(* ===== verification/Mailbox_Wait.thy ===== *)
theory Mailbox_Wait
  imports Mailbox_Guard
begin

text \<open>
  The mailbox wait ends. The device may never answer, so this rests on the clock: \<open>steady\<close> is what
  the daemon relies on of CLOCK_MONOTONIC and \<^verbatim>\<open>usleep\<close>. Whatever else is queued is run
  meanwhile, as long as it is not another mailbox request.
\<close>

section \<open>The clock\<close>

text \<open>
  \<open>rd w\<close> is what the daemon would read in the world \<open>w\<close>: no call moves it back, and sleeping advances
  it by the time slept, up to the largest value that can be read.
\<close>

definition clock_us :: "u64 \<times> u64 \<Rightarrow> u64" where
  "clock_us t = (case t of (sec, nsec) \<Rightarrow> sec * 1000000 + nsec div 1000)"

definition steady :: "'w kernel \<Rightarrow> ('w \<Rightarrow> nat) \<Rightarrow> bool" where
  "steady K rd \<longleftrightarrow>
     (\<forall>w. unat (clock_us (fst (k_clock K w))) = rd w \<and> rd w \<le> rd (snd (k_clock K w))) \<and>
     (\<forall>d w. min (rd w + unat d) (2 ^ 64 - 1) \<le> rd (k_usleep K d w)) \<and>
     (\<forall>tx f w. rd w \<le> rd (snd (k_spi K tx f w))) \<and> (\<forall>fd m w. rd w \<le> rd (snd (k_send K fd m w)))"

lemma steady_now_us: "steady K rd \<Longrightarrow> now_us K s = (t, s') \<Longrightarrow> unat t = rd (world s) \<and> rd (world s) \<le> rd (world s')"
  by (auto simp: steady_def now_us_def clock_us_def Let_def split: prod.splits dest: spec [of _ "world s"])

lemma steady_guarded:
  assumes "steady K rd"
  shows "guarded_world (hw_build K R) (\<lambda>w. a \<le> rd w) (\<lambda>_. True)"
proof -
  have spi: "a \<le> rd w'" if "k_spi K tx f w = (r, w')" "a \<le> rd w" for tx f w r w'
    using assms that unfolding steady_def by (metis order_trans snd_conv)
  have clk: "a \<le> rd (snd (k_clock K w))" if "a \<le> rd w" for w using assms that unfolding steady_def by (meson order_trans)
  have snd: "a \<le> rd (snd (k_send K fd m w))" if "a \<le> rd w" for fd m w using assms that unfolding steady_def by (meson order_trans)
  show ?thesis
    by unfold_locales
      (use clk snd in \<open>auto simp: spi_write_reg_def spi_read_reg_def Let_def split: prod.splits dest: spi\<close>)
qed

section \<open>Requests other than mailbox ones\<close>

definition no_mailbox :: "(nat \<Rightarrow> nat list) \<Rightarrow> 'w daemon \<Rightarrow> bool" where
  "no_mailbox Q s \<longleftrightarrow> (\<forall>i \<in> set_mset (qset Q). type_of_code (h_type (q_hdr (pool s i))) \<noteq> Some SPIPROXY_MAILBOX)"

lemma no_mailbox_stable:
  assumes "no_mailbox Q s" and "stable s s'" and "set_mset (qset Q') \<subseteq> set_mset (qset Q)"
  shows "no_mailbox Q' s'"
  using assms stable_tags [OF assms(2)] by (auto simp: no_mailbox_def)

context spi_backend
begin

lemma drain_plain_ends:
  assumes "sched_ok s F Q L" and "daemon_ok s" and "no_mailbox Q s" and "b < n"
  shows "\<exists>s'. drain_queues n B b s = Some (Ran s')"
  using assms
proof (induction n arbitrary: s F Q b)
  case (Suc n)
  show ?case
  proof (cases "b = 0 \<or> dequeue s = Some None")
    case False
    with dequeue_holds [OF Suc.prems(1)] obtain q it where p: "pick_spec (item_eligible s) Q [0, 1, 2] = Some (q, it)"
      by (auto simp: holds_iff split: option.splits)
    from pick_spec_mem [OF p] have q: "q < 3" "it \<in> set (Q q)" by auto
    let ?Q = "Q(q := remove1 it (Q q))"
    have Q: "add_mset it (qset ?Q) = qset Q" using q by (rule qset_remove1)
    then have sub: "set_mset (qset ?Q) \<subseteq> set_mset (qset Q)" "it \<in> set_mset (qset Q)" by (metis set_mset_add_mset_insert insert_iff subsetI)+
    then have ty: "type_of_code (h_type (q_hdr (pool s it))) \<noteq> Some SPIPROXY_MAILBOX" using Suc.prems(3) by (simp add: no_mailbox_def)
    obtain s1 s2 where d: "dequeue s = Some (Some (it, s1))" and x: "exec_item (mb_wait n B) B it s1 = Some (Ran s2)"
      and s3: "sched_ok (free_item it s2) (it # F) ?Q L" and st: "stable s (free_item it s2)"
      by (rule plain_turn [OF Suc.prems(1,2) p ty, of "mb_wait n B"]) (rule that)
    have "daemon_ok (free_item it s2)" "b - 1 < n" using st Suc.prems(2,4) False by (auto simp: stable_def)
    from Suc.IH [OF s3 this(1) no_mailbox_stable [OF Suc.prems(3) st sub(1)] this(2)] show ?thesis
      using False d x by simp
  qed auto
qed simp

end

section \<open>The wait\<close>

lemma steady_spi: "steady K rd \<Longrightarrow> k_spi K tx f w = (r, w') \<Longrightarrow> rd w \<le> rd w'"
  unfolding steady_def by (metis snd_conv)

lemma steady_log: "steady K rd \<Longrightarrow> rd (world s) \<le> rd (world (log_trace K t s))"
  by (cases "now_us K s") (auto simp: log_trace_def trace_v_def dest: steady_now_us)

lemma steady_read:
  assumes "steady K rd" and "spi_read_reg K R sl m r s = (res, s')"
  shows "rd (world s) \<le> rd (world s')"
proof -
  let ?tx = "\<lambda>m r. take (SPI_BYTES + pad s) (spi_fill False (spi_addr sl m r) 0)"
  obtain rc0 rx0 w0 where 0: "k_spi K (?tx m r) (freq s) (world s) = ((rc0, rx0), w0)" by (metis surj_pair)
  obtain rc1 rx1 w1 where 1: "k_spi K (?tx MMD_GLOBAL (DEVICE_ID_REG R)) (freq s) w0 = ((rc1, rx1), w1)" by (metis surj_pair)
  have "world s' \<in> {w0, w1}" using assms(2) by (auto simp: spi_read_reg_def 0 1 Let_def split: if_splits)
  then show ?thesis using steady_spi [OF assms(1) 0] steady_spi [OF assms(1) 1] by auto
qed

lemma steady_mb_rd:
  assumes "steady K rd" and "mb_rd (hw_build K R) sl r v s = (res, s')"
  shows "rd (world s) \<le> rd (world s')"
proof -
  obtain x s1 where r: "spi_read_reg K R sl MMD_GLOBAL r s = (x, s1)" by fastforce
  have "rd (world s1) \<le> rd (world s')"
    using assms(2) by (auto simp: mb_rd_def r Let_def intro: steady_log [OF assms(1)])
  with steady_read [OF assms(1) r] show ?thesis by simp
qed

text \<open>What the wait keeps from one poll to the next.\<close>

definition waiting :: "nat list \<Rightarrow> 'w daemon \<Rightarrow> bool" where
  "waiting L s \<longleftrightarrow> (\<exists>F Q. sched_ok s F Q L \<and> no_mailbox Q s) \<and> daemon_ok s \<and> mb_inflight s \<and> rst_fd s < 0"

lemma waiting_io:
  assumes "waiting L s" and "io_frame s s'"
  shows "waiting L s'"
proof -
  have st: "stable s s'" using assms(2) by (intro run_frame_daemon_ok io_run_frame) (simp_all add: io_frame_iff)
  have "sched_ok s' F Q L = sched_ok s F Q L" for F Q using run_frame_sched_ok [OF io_run_frame [OF assms(2)]] by blast
  moreover have "no_mailbox Q s' = no_mailbox Q s" for Q using assms(2) by (simp add: no_mailbox_def io_frame_iff)
  moreover have "daemon_ok s'" "mb_inflight s'" "rst_fd s' < 0"
    using assms st by (simp_all add: waiting_def stable_def io_frame_iff)
  ultimately show ?thesis using assms(1) unfolding waiting_def by simp
qed

lemma waiting_world: "waiting L (s\<lparr>world := w\<rparr>) = waiting L s"
proof -
  have "io_frame s (s\<lparr>world := w\<rparr>)" "io_frame (s\<lparr>world := w\<rparr>) s" by (simp_all add: io_frame_iff)
  then show ?thesis using waiting_io by blast
qed

lemma steady_drain:
  assumes k: "steady K rd" and w: "waiting L s" and "4 < n"
  shows "\<exists>s'. drain_queues n (hw_build K R) 4 s = Some (Ran s') \<and> waiting L s' \<and> rd (world s) \<le> rd (world s')"
proof -
  obtain F Q where s: "sched_ok s F Q L" "no_mailbox Q s" "daemon_ok s" "mb_inflight s" "rst_fd s < 0"
    using w by (auto simp: waiting_def)
  obtain s' where d: "drain_queues n (hw_build K R) 4 s = Some (Ran s')"
    using hw.drain_plain_ends [OF s(1,3,2) assms(3)] by blast
  have sv: "serves L [] s s'" using hw.drain_serves [OF s(1,3), of n K R 4] by (simp add: d wp_simps)
  then obtain F' Q' where Q': "sched_ok s' F' Q' L" "\<forall>q < 3. subseq (Q' q) (Q q)" using s(1) unfolding serves_def by blast
  have st: "stable s s'" using sv by (simp add: serves_def)
  have "no_mailbox Q' s'" by (rule no_mailbox_stable [OF s(2) st qset_subseq [OF Q'(2)]])
  moreover have "daemon_ok s'" "rst_fd s' < 0" using st s(3,5) by (simp_all add: stable_def conf_of_def)
  moreover have "\<forall>i \<in> set_mset (qset Q). harmless (\<lambda>_. True) i s"
    using s(2) by (auto simp: no_mailbox_def harmless_def plain_item_def)
  from guarded_world.drain_keeps_P [OF steady_guarded [OF k] s(1,3) order_refl s(4,5) this, where n = n and b = 4] d
  have "rd (world s) \<le> rd (world s')" "mb_inflight s'" by (auto simp: returns_iff)
  ultimately show ?thesis using d Q'(1) by (auto simp: waiting_def)
qed

lemma steady_write:
  assumes "steady K rd" and "mb_wr (hw_build K R) sl r v s = (ok, s')"
  shows "rd (world s) \<le> rd (world s')"
proof -
  obtain rc rx w where k: "k_spi K (take SPI_BYTES (spi_fill True (spi_addr sl MMD_GLOBAL r) v)) (freq s) (world s) = ((rc, rx), w)"
    by (metis surj_pair)
  obtain x s1 where r: "spi_write_reg K sl MMD_GLOBAL r v s = (x, s1)" by fastforce
  then have "world s1 = w" by (auto simp: spi_write_reg_def k Let_def split: if_splits)
  moreover have "rd (world s1) \<le> rd (world s')"
    using assms(2) by (auto simp: mb_wr_def r Let_def intro: steady_log [OF assms(1)])
  ultimately show ?thesis using steady_spi [OF assms(1) k] by simp
qed

text \<open>How the wait may end; and one poll, which ends it or leaves it with a millisecond less to go.\<close>

definition wait_result :: "('w \<Rightarrow> nat) \<Rightarrow> u64 \<Rightarrow> spiproxy_status option \<Rightarrow> u32 \<Rightarrow> 'w daemon \<Rightarrow> bool" where
  "wait_result rd t_end st v s \<longleftrightarrow>
     st = None \<and> v AND MB_F_RESP \<noteq> 0 \<or> st = Some SPIPROXY_EIO \<or> st = Some SPIPROXY_ETIMEDOUT \<and> unat t_end < rd (world s)"

lemma poll:
  assumes k: "steady K rd" and w: "waiting L s" and m: "4 < m"
  shows "(\<exists>st v' s'. mb_wait (Suc m) (hw_build K R) sl t_end v s = Some (Ran (st, v', s')) \<and> wait_result rd t_end st v' s') \<or>
    rd (world s) \<le> unat t_end \<and> (\<exists>v' s'. mb_wait (Suc m) (hw_build K R) sl t_end v s = mb_wait m (hw_build K R) sl t_end v' s' \<and>
      waiting L s' \<and> min (rd (world s) + 1000) (2 ^ 64 - 1) \<le> rd (world s'))"
proof -
  let ?B = "hw_build K R"
  obtain r s1 where r: "mb_rd ?B sl MB_FLAG v s = (r, s1)" by fastforce
  obtain t s2 where t: "now_us K s1 = (t, s2)" by fastforce
  obtain ok s3 where wr: "mb_wr ?B sl MB_FLAG MB_CLR_REQ s2 = (ok, s3)" by fastforce
  have rd: "rd (world s) \<le> rd (world s1)" "unat t = rd (world s1)" "rd (world s1) \<le> rd (world s2)" "rd (world s2) \<le> rd (world s3)"
    using steady_mb_rd [OF k r] steady_now_us [OF k t] steady_write [OF k wr] by auto
  show ?thesis
  proof (cases "\<exists>x. r = Some x \<and> x AND MB_F_RESP = 0 \<and> \<not> t_end < t")
    case False
    then show ?thesis
      using rd by (cases r) (auto simp: r t wr wait_result_def word_less_nat_alt)
  next
    case True
    then obtain x where x: "r = Some x" "x AND MB_F_RESP = 0" "\<not> t_end < t" by blast
    have w2: "waiting L s2" using waiting_io [OF waiting_io [OF w hw.mb_rd_io [OF r]] io_frame_now_us [OF t]] .
    obtain s4 where d: "drain_queues m ?B 4 s2 = Some (Ran s4)" "waiting L s4" "rd (world s2) \<le> rd (world s4)"
      using steady_drain [OF k w2 m] by blast
    let ?s = "s4\<lparr>world := k_usleep K 1000 (world s4)\<rparr>"
    have "min (rd (world s4) + unat (1000 :: u32)) (2 ^ 64 - 1) \<le> rd (k_usleep K 1000 (world s4))"
      using k unfolding steady_def by blast
    then have "min (rd (world s) + 1000) (2 ^ 64 - 1) \<le> rd (world ?s)" using rd d(3) by simp
    moreover have "mb_wait (Suc m) ?B sl t_end v s = mb_wait m ?B sl t_end x ?s" using x d(1) by (simp add: r t)
    moreover have "rd (world s) \<le> unat t_end" using x(3) rd by (simp add: word_less_nat_alt)
    moreover have "waiting L ?s" unfolding waiting_world by (fact d(2))
    ultimately show ?thesis by blast
  qed
qed

text \<open>
  C12. The wait for a mailbox response always ends: with a steady clock, no reset line, and requests
  other than mailbox ones queued, it returns with the device's response flag raised, with EIO, or
  with ETIMEDOUT and then the deadline has passed. It polls at most once per millisecond left to the
  deadline, and a few times more. (Deadlines lie before the end of the clock's range.)
\<close>

theorem mailbox_wait_ends:
  assumes k: "steady K rd" and "waiting L s" and "unat t_end < 2 ^ 64 - 1"
    and "unat t_end < rd (world s) + 1000 * k" and "k + 6 \<le> n"
  shows "\<exists>st v' s'. mb_wait n (hw_build K R) sl t_end v s = Some (Ran (st, v', s')) \<and>
    wait_result rd t_end st v' s'"
  using assms(2,4,5)
proof (induction k arbitrary: n v s)
  case 0
  then obtain m where m: "n = Suc m" "4 < m" by (cases n) auto
  from poll [OF k 0(1) m(2), of R sl t_end v] 0(2) m(1) show ?case by auto
next
  case (Suc k)
  then obtain m where m: "n = Suc m" "4 < m" "k + 6 \<le> m" by (cases n) auto
  from poll [OF assms(1) Suc.prems(1) m(2), of R sl t_end v] show ?case
  proof (elim disjE conjE exE)
    fix v' s' assume s': "mb_wait (Suc m) (hw_build K R) sl t_end v s = mb_wait m (hw_build K R) sl t_end v' s'" "waiting L s'"
      and "min (rd (world s) + 1000) (2 ^ 64 - 1) \<le> rd (world s')"
    then have "unat t_end < rd (world s') + 1000 * k" using Suc.prems(2) assms(3) by (simp add: min_def split: if_splits)
    from Suc.IH [OF s'(2) this m(3), of v'] s'(1) m(1) show ?thesis by simp
  qed (use m(1) in blast)
qed

text \<open>A world that is the time, and a device that never answers.\<close>

definition tick_rd :: "nat \<Rightarrow> nat" where
  "tick_rd w = min w (2 ^ 64 - 1)"

definition tick_kernel :: "nat kernel" where
  "tick_kernel = sample_kernel\<lparr>k_clock := (\<lambda>w. ((of_nat (tick_rd w div 1000000), of_nat (tick_rd w mod 1000000 * 1000)), w)),
     k_usleep := (\<lambda>d w. w + unat d)\<rparr>"

lemma tick_steady: "steady tick_kernel tick_rd"
proof -
  have "unat (clock_us (of_nat (n div 1000000), of_nat (n mod 1000000 * 1000))) = n" if "n \<le> 2 ^ 64 - 1" for n
  proof -
    have "n mod 1000000 * 1000 < 1000000 * 1000" by (intro mult_strict_right_mono) simp_all
    then have "unat (of_nat (n mod 1000000 * 1000) :: u64) = n mod 1000000 * 1000"      by (simp add: unat_of_nat del: of_nat_mult)
    then have "of_nat (n mod 1000000 * 1000) div (1000 :: u64) = of_nat (n mod 1000000)"
      by (simp add: word_unat_eq_iff unat_div unat_of_nat del: of_nat_mult)
    then have "clock_us (of_nat (n div 1000000), of_nat (n mod 1000000 * 1000)) = of_nat (n div 1000000 * 1000000 + n mod 1000000)"
      by (simp only: clock_us_def prod.case of_nat_add of_nat_mult of_nat_numeral)
    then have "clock_us (of_nat (n div 1000000), of_nat (n mod 1000000 * 1000)) = of_nat n" by (simp only: div_mult_mod_eq)
    then show ?thesis using that by (simp only: unat_of_nat) simp
  qed
  from this [of "tick_rd w" for w] show ?thesis
    by (auto simp: steady_def tick_kernel_def sample_kernel_def tick_rd_def)
qed

theorem mailbox_wait_ends_witness:
  "\<exists>st v' s'. mb_wait 12 (hw_build tick_kernel sample_regs) 0 5000 0 ((queued SPIPROXY_STATS [] 0)\<lparr>mb_inflight := True\<rparr>) =
     Some (Ran (st, v', s')) \<and> wait_result tick_rd 5000 st v' s'"
proof -
  have l: "length ([] :: u8 list) \<le> SPIPROXY_MSG_MAX" by simp
  note f = queued_facts [OF l, of SPIPROXY_STATS "0 :: nat"] queued_type [OF l, of SPIPROXY_STATS "0 :: nat"]
    queued_world [OF l, of SPIPROXY_STATS "0 :: nat"]
  have "no_mailbox one_queued ((queued SPIPROXY_STATS [] (0 :: nat))\<lparr>mb_inflight := True\<rparr>)"
    using f(13) by (auto simp: no_mailbox_def qset_def one_queued_def)
  with f(2,4,12) have "waiting [] ((queued SPIPROXY_STATS [] (0 :: nat))\<lparr>mb_inflight := True\<rparr>)"
    unfolding waiting_def by auto
  from mailbox_wait_ends [OF tick_steady this, of 5000 6 12 sample_regs 0 0] f(14) show ?thesis by simp
qed

end
