(* ===== verification/Diagnostics.thy ===== *)
theory Diagnostics
  imports Claiming
begin

text \<open>
  The diagnostic services: the operation log as a history and TRACE as its tail, STATS and where its
  text stops fitting, and the lint detectors: silent for one client alone, alert to a torn
  read-modify-write between two.
\<close>

section \<open>The operation log as a history\<close>

text \<open>\<open>logs hist s\<close>: the ring and its counter are what remains of the whole history.\<close>

definition logs :: "trace_ent list \<Rightarrow> 'w daemon \<Rightarrow> bool" where
  "logs hist s \<longleftrightarrow> length hist = unat (ring_w s) \<and>
     (\<forall>k < length hist. length hist \<le> k + TRACE_RING \<longrightarrow> ring s (k mod TRACE_RING) = hist ! k)"

lemma logs_cong: "ring s' = ring s \<Longrightarrow> ring_w s' = ring_w s \<Longrightarrow> logs hist s' = logs hist s"
  by (simp add: logs_def)

lemma now_us_ring: "now_us K s = (t, s') \<Longrightarrow> ring s' = ring s \<and> ring_w s' = ring_w s"
  by (auto simp: now_us_def Let_def split: prod.splits)

lemma trace_v_ring: "ring (trace_v K p t s) = ring s" "ring_w (trace_v K p t s) = ring_w s"
  by (cases "now_us K s"; auto simp: trace_v_def dest: now_us_ring)+

lemma log_ring:
  "ring (log_trace K t s) = ring s" "ring_w (log_trace K t s) = ring_w s"
  "ring (warn_line K t s) = ring s" "ring_w (warn_line K t s) = ring_w s"
  by (simp_all add: log_trace_def warn_line_def log_msg_def trace_v_ring)

lemma lint_op_ring: "returns (lint_op K R p s) (\<lambda>s'. ring s' = ring s \<and> ring_w s' = ring_w s)"
proof -
  obtain t s1 where t: "now_us K s = (t, s1)" by fastforce
  have cor: "ring (lint_cor K R t p s2) = ring s2" "ring_w (lint_cor K R t p s2) = ring_w s2" for s2
    by (simp_all add: lint_cor_def Let_def log_ring)
  have rmw: "ring (lint_rmw K t p s2) = ring s2" "ring_w (lint_rmw K t p s2) = ring_w s2" for s2
    by (auto simp: lint_rmw_def Let_def log_ring split: option.split)
  have "returns (lint_page K p s1) (\<lambda>s'. ring s' = ring s1 \<and> ring_w s' = ring_w s1)"
    by (auto simp: lint_page_def wp_simps Let_def log_ring split: option.split)
  then show ?thesis using now_us_ring [OF t] by (auto simp: lint_op_def t returns_iff cor rmw Option.bind_eq_Some_conv)
qed

definition op_entry :: "u64 \<Rightarrow> nat option \<Rightarrow> 'w daemon \<Rightarrow> spiproxy_op \<Rightarrow> trace_ent" where
  "op_entry t c s p =
     \<lparr>te_ts = t, te_cid = (case c of None \<Rightarrow> 0 | Some i \<Rightarrow> c_id (cl s i)), te_slice = o_slice p, te_write = o_write p,
      te_mmd = o_mmd p, te_reg = o_reg p, te_val = o_val p\<rparr>"

lemma trace_add_logs:
  assumes "logs hist s" and "length hist + 1 < 2 ^ 32"
  shows "\<exists>t. logs (hist @ [op_entry t c s p]) (trace_add K c p s)"
proof -
  obtain t s1 where t: "now_us K (s\<lparr>ring_w := ring_w s + 1\<rparr>) = (t, s1)" by fastforce
  have s1: "ring s1 = ring s" "ring_w s1 = ring_w s + 1" "cl s1 = cl s"
    using now_us_ring [OF t] io_frame_now_us [OF t] by (simp_all add: io_frame_iff)
  have n: "length hist = unat (ring_w s)" using assms(1) by (simp add: logs_def)
  then have n1: "unat (ring_w s + 1) = length hist + 1" using assms(2) by (simp add: unat_word_ariths)
  have "logs (hist @ [op_entry t c s p]) (trace_add K c p s)"
    unfolding logs_def
  proof (intro conjI allI impI)
    show "length (hist @ [op_entry t c s p]) = unat (ring_w (trace_add K c p s))"
      using n1 s1 by (simp add: trace_add_def t)
    fix k assume k: "k < length (hist @ [op_entry t c s p])" "length (hist @ [op_entry t c s p]) \<le> k + TRACE_RING"
    have new: "ring (trace_add K c p s) = (ring s)(length hist mod TRACE_RING := op_entry t c s p)"
      using s1 n by (simp add: trace_add_def t op_entry_def cong: option.case_cong)
    show "ring (trace_add K c p s) (k mod TRACE_RING) = (hist @ [op_entry t c s p]) ! k"
    proof (cases "k = length hist")
      case False
      then have "k mod TRACE_RING \<noteq> length hist mod TRACE_RING"
        using k mod_eq_dvd_iff_nat [of k "length hist" TRACE_RING] dvd_imp_le [of TRACE_RING "length hist - k"] by auto
      with False k assms(1) show ?thesis by (simp add: new logs_def nth_append)
    qed (simp add: new)
  qed
  then show ?thesis ..
qed

text \<open>
  C27. The operation log is a history: an operation that reaches the bus appends one entry, with the
  client's identifier and the operation as executed, value read included; one refused for its
  slice or by the mailbox guard appends nothing. (Until the 32-bit counter wraps.)
\<close>

theorem exec_op_logged:
  assumes "logs hist s" and "length hist + 1 < 2 ^ 32" and "exec_op (hw_build K R) c p s = Some (st, p', s')"
  shows "if st \<in> {SPIPROXY_OK, SPIPROXY_EIO} then \<exists>t. logs (hist @ [op_entry t c s p']) s' else logs hist s' \<and> p' = p"
proof (cases "SLICE_COUNT \<le> unat (o_slice p) \<or> mb_inflight s \<and> in_mb_guard p \<and> c \<noteq> None")
  case True
  then show ?thesis using assms(1,3) by (auto simp: exec_op_def split: if_splits)
next
  case False
  let ?B = "hw_build K R"
  obtain ok p1 s1 where b: "bus_access ?B p s = (ok, p1, s1)" by (cases "bus_access ?B p s")
  have s1: "ring s1 = ring s" "ring_w s1 = ring_w s" "cl s1 = cl s"
    using b by (auto simp: bus_access_def spi_write_reg_def spi_read_reg_def Let_def split: prod.splits if_splits option.splits)
  have "logs hist s1" using assms(1) logs_cong [OF s1(1,2)] by blast
  from trace_add_logs [OF this assms(2), of c p1 K] obtain t where "logs (hist @ [op_entry t c s1 p1]) (trace_add K c p1 s1)" by blast
  moreover have "op_entry t c s1 p1 = op_entry t c s p1" by (simp add: op_entry_def s1(3) split: option.split)
  ultimately have t: "logs (hist @ [op_entry t c s p1]) (trace_add K c p1 s1)" by simp
  have "p' = p1" "st \<in> {SPIPROXY_OK, SPIPROXY_EIO}" "ring s' = ring (trace_add K c p1 s1)" "ring_w s' = ring_w (trace_add K c p1 s1)"
    using assms(3) False lint_op_ring [of K R p1 "trace_add K c p1 s1"]
    by (auto simp: exec_op_def b Option.bind_eq_Some_conv returns_iff log_ring Let_def split: if_splits)
  then show ?thesis using t logs_cong by (metis (no_types))
qed

lemma connected_logs: "logs [] (connected_daemon w)"
  by (simp add: logs_def connect_def sample_daemon_def init_daemon_def chain_pool_def zero_daemon_def)

theorem exec_op_logged_witness:
  "\<exists>st p' s'. exec_op sample_hw (Some 0) (sample_op 0 1 2 0) (connected_daemon ()) = Some (st, p', s') \<and>
     (if st \<in> {SPIPROXY_OK, SPIPROXY_EIO} then \<exists>t. logs [op_entry t (Some 0) (connected_daemon ()) p'] s'
      else logs [] s' \<and> p' = sample_op 0 1 2 0)"
proof -
  obtain st p' s' where e: "exec_op sample_hw (Some 0) (sample_op 0 1 2 0) (connected_daemon ()) = Some (st, p', s')"
    using hw.exec_op_holds [of sample_kernel sample_regs "Some 0" "sample_op 0 1 2 0" "connected_daemon ()"] by (auto simp: holds_iff)
  from exec_op_logged [OF connected_logs _ e] e show ?thesis by auto
qed

text \<open>
  C28. TRACE answers with the history: the last 64 entries, oldest first, one line each, all of
  them and nothing else, and the text always fits into the reply.
\<close>

theorem trace_shows_history:
  assumes "logs hist s"
  shows "\<exists>s'. exec_trace (hw_build K R) it s = Some s' \<and> sent s' = sent s @ [reply_of it SPIPROXY_OK
    (bytes_of_string (concat (map trace_line (drop (length hist - 64) hist)))) s] \<and>
    length (concat (map trace_line (drop (length hist - 64) hist))) < SPIPROXY_MSG_MAX"
proof -
  have "ring s (k mod TRACE_RING) = hist ! k" if "k < length hist" "length hist - 64 \<le> k" for k
    using assms that by (auto simp: logs_def const_defs)
  then have "map (\<lambda>k. trace_line (ring s (k mod TRACE_RING))) [length hist - 64..<length hist] = map trace_line (drop (length hist - 64) hist)"
    by (intro nth_equalityI) simp_all
  then have "trace_text s = concat (map trace_line (drop (length hist - 64) hist))"
    using assms by (simp add: trace_text_def trace_start_def logs_def const_defs)
  with exec_trace_replied [of "hw_build K R" it s] length_trace_text [of s] show ?thesis
    by (auto simp: holds_iff replied_def const_defs)
qed

theorem trace_shows_history_witness:
  "\<exists>s'. exec_trace sample_hw 0 (connected_daemon ()) = Some s' \<and>
     sent s' = sent (connected_daemon ()) @ [reply_of 0 SPIPROXY_OK (bytes_of_string []) (connected_daemon ())]"
  using trace_shows_history [OF connected_logs [of "()"], of sample_kernel sample_regs 0] by auto

section \<open>Statistics\<close>

text \<open>
  C29. STATS answers with the line of the daemon's settings and counters and one line for each client
  connected, in slot order, and the text fits into the reply, as long as the device path and the
  name of the reset line have at most 1800 characters together.
\<close>

theorem stats_reports:
  assumes "stats_ok s" and "int32 (n_queued s)"
  shows "\<exists>s'. exec_stats (hw_build K R) it s = Some s' \<and> sent s' = sent s @ [reply_of it SPIPROXY_OK (bytes_of_string
      (stats_line s @ concat (map (\<lambda>i. client_line (cl s i)) (filter (\<lambda>i. c_used (cl s i)) [0..<MAX_CLIENTS])))) s] \<and>
    length (stats_line s @ concat (map (\<lambda>i. client_line (cl s i)) (filter (\<lambda>i. c_used (cl s i)) [0..<MAX_CLIENTS]))) < SPIPROXY_MSG_MAX"
  using exec_stats_replied [OF assms, of "hw_build K R" it] length_stats_text [OF assms]
  by (auto simp: holds_iff replied_def stats_text_def)

theorem stats_reports_witness:
  "\<exists>s'. exec_stats sample_hw 0 (connected_daemon ()) = Some s' \<and> sent s' = [reply_of 0 SPIPROXY_OK (bytes_of_string
      (stats_line (connected_daemon ()) @ client_line sample_client)) (connected_daemon ())]"
proof -
  let ?s = "connected_daemon ()"
  have ok: "stats_ok ?s" using connected_inv [of "()"] by (auto simp: server_inv_def owned_def daemon_ok_def)
  have n: "int32 (n_queued ?s)" using connected_sched [of "()"] by (simp add: sched_ok_def int32_def)
  have "cl ?s = (\<lambda>_. zero_client)(0 := sample_client)" by (simp add: connect_def sample_daemon_def init_daemon_def chain_pool_def zero_daemon_def)
  then have "filter (\<lambda>i. c_used (cl ?s i)) [0..<MAX_CLIENTS] = [0]" "cl ?s 0 = sample_client"
    by (simp_all add: upt_conv_Cons const_defs sample_client_def zero_client_def)
  with stats_reports [OF ok n, of sample_kernel sample_regs 0] connected_fields(3) show ?thesis by auto
qed

text \<open>
  C36. Without that bound STATS writes outside its buffer: when the first line alone exceeds it, as with a device path of more than 4000 characters, and
  a client connected, appending the client's line is undefined.
\<close>

theorem stats_overflow:
  assumes "SPIPROXY_MSG_MAX < length (stats_line s)" and "i < MAX_CLIENTS" and "c_used (cl s i)"
  shows "exec_stats (hw_build K R) it s = None"
proof -
  have long: "stats_loop s is t = None" if "SPIPROXY_MSG_MAX < length t" "\<exists>i \<in> set is. c_used (cl s i)" for "is" t
    using that by (induction "is" arbitrary: t) (auto simp: txt_append_def guard_def)
  have "stats_loop s [0..<MAX_CLIENTS] (stats_line s) = None" by (rule long) (use assms in auto)
  then show ?thesis by (simp add: exec_stats_def txt_append_def)
qed

theorem stats_overflow_witness:
  "exec_stats sample_hw 0 ((connected_daemon ())\<lparr>dev := replicate 4090 (CHR ''/'')\<rparr>) = None"
proof -
  let ?s = "(connected_daemon ())\<lparr>dev := replicate 4090 (CHR ''/'')\<rparr>"
  have "SPIPROXY_MSG_MAX < length (stats_line ?s)" by (simp add: stats_line_def const_defs)
  from stats_overflow [OF this, of 0 sample_kernel sample_regs 0] show ?thesis
    by (simp add: connected_fields sample_client_def const_defs)
qed

section \<open>Lint\<close>

text \<open>All records of the detectors come from one client, or are empty.\<close>

definition seen :: "u32 \<Rightarrow> u32 \<Rightarrow> bool" where
  "seen cid x \<longleftrightarrow> x = 0 \<or> x = cid"

definition lint_only :: "u32 \<Rightarrow> 'w daemon \<Rightarrow> bool" where
  "lint_only cid s \<longleftrightarrow> (\<forall>sl side. seen cid (pg_cid (page_owner s sl side))) \<and>
     (\<forall>k. seen cid (co_cid (cor_last s k))) \<and> (\<forall>i. seen cid (rd_cid (rd_ring s i)))"

definition lint_calm :: "u32 \<Rightarrow> 'w daemon \<Rightarrow> 'w daemon \<Rightarrow> bool" where
  "lint_calm cid s s' \<longleftrightarrow> lint_only cid s' \<and> lctx_cid s' = cid \<and> n_warns s' = n_warns s \<and> syslog s' = syslog s"

lemma seen_simps [simp]: "seen cid 0" "seen cid cid"
  by (simp_all add: seen_def)

lemma seen_own: "seen cid x \<Longrightarrow> (x \<noteq> 0 \<and> x \<noteq> cid \<and> R) = False" "seen cid x \<Longrightarrow> (x \<noteq> 0 \<and> x \<noteq> cid) = False"
  by (auto simp: seen_def)

lemma now_us_lint: "now_us K s = (t, s') \<Longrightarrow> lint_only cid s \<Longrightarrow> lctx_cid s = cid \<Longrightarrow> lint_calm cid s s'"
  by (auto simp: now_us_def lint_calm_def lint_only_def Let_def split: prod.splits)

lemma lint_page_calm: "lint_only cid s \<Longrightarrow> lctx_cid s = cid \<Longrightarrow> returns (lint_page K p s) (lint_calm cid s)"
  by (auto simp: lint_page_def wp_simps Let_def lint_only_def lint_calm_def seen_own split: option.split)

lemma lint_cor_calm: "lint_only cid s \<Longrightarrow> lctx_cid s = cid \<Longrightarrow> lint_calm cid s (lint_cor K R now p s)"
  by (auto simp: lint_cor_def Let_def lint_only_def lint_calm_def seen_own)

lemma lint_rmw_calm:
  assumes "lint_only cid s" and "lctx_cid s = cid"
  shows "lint_calm cid s (lint_rmw K now p s)"
proof -
  have "\<not> rmw_hit now p s i" for i using assms by (auto simp: rmw_hit_def lint_only_def Let_def seen_def dest: spec [of _ i])
  then have "find (rmw_hit now p s) [0..<RD_RING_COUNT] = None" by (simp add: find_None_iff)
  with assms show ?thesis by (auto simp: lint_rmw_def Let_def lint_only_def lint_calm_def)
qed

lemma lint_op_calm:
  assumes "lint_only cid s" and "lctx_cid s = cid"
  shows "returns (lint_op K R p s) (lint_calm cid s)"
proof -
  obtain t s1 where t: "now_us K s = (t, s1)" by fastforce
  have "lint_calm cid s s1" using now_us_lint [OF t assms] .
  then have "returns (lint_page K p s1) (lint_calm cid s)"
    using lint_page_calm [of cid s1 K p] by (auto simp: lint_calm_def returns_iff)
  moreover have "lint_calm cid s (lint_rmw K t p (lint_cor K R t p s2))" if "lint_calm cid s s2" for s2
    using lint_rmw_calm [of cid "lint_cor K R t p s2" K t p] lint_cor_calm [of cid s2 K R t p] that by (simp add: lint_calm_def)
  ultimately show ?thesis by (auto simp: lint_op_def t returns_iff Option.bind_eq_Some_conv)
qed

text \<open>
  C30. A client alone is never warned: while the detectors have seen no other client, no operation
  of the client raises a warning, whatever it reads and writes and in whatever order.
\<close>

theorem lone_client_silent:
  assumes "lint_only cid s" and "lctx_cid s = cid" and "exec_op (hw_build K R) c p s = Some (st, p', s')"
  shows "lint_only cid s' \<and> n_warns s' = n_warns s \<and> syslog s' = syslog s"
proof (cases "SLICE_COUNT \<le> unat (o_slice p) \<or> mb_inflight s \<and> in_mb_guard p \<and> c \<noteq> None")
  case True
  then show ?thesis using assms by (auto simp: exec_op_def split: if_splits)
next
  case False
  let ?B = "hw_build K R"
  obtain ok p1 s1 where b: "bus_access ?B p s = (ok, p1, s1)" by (cases "bus_access ?B p s")
  have "lint_calm cid s s1"
    using b assms(1,2)
    by (auto simp: bus_access_def spi_write_reg_def spi_read_reg_def lint_calm_def lint_only_def Let_def
        split: prod.splits if_splits option.splits)
  then have t: "lint_calm cid s (trace_add K c p1 s1)"
    by (auto simp: lint_calm_def lint_only_def trace_add_def now_us_def Let_def split: prod.splits)
  have log: "lint_calm cid s (log_trace K u s2)" if "lint_calm cid s s2" for u s2
    using that by (auto simp: lint_calm_def lint_only_def log_trace_def trace_v_def now_us_def Let_def split: prod.splits)
  have "lint_calm cid s s2" if "lint_op K R p1 (trace_add K c p1 s1) = Some s2" for s2
    using lint_op_calm [of cid "trace_add K c p1 s1" K R p1] t that by (auto simp: lint_calm_def returns_iff)
  then have "lint_calm cid s s'"
    using assms(3) False t log by (auto simp: exec_op_def b Option.bind_eq_Some_conv Let_def split: if_splits)
  then show ?thesis by (simp add: lint_calm_def)
qed

theorem lone_client_silent_witness:
  "\<exists>st p' s'. exec_op sample_hw (Some 0) (sample_op 0 1 2 0) ((connected_daemon ())\<lparr>lctx_cid := 1\<rparr>) = Some (st, p', s') \<and>
     n_warns s' = n_warns (connected_daemon ())"
proof -
  let ?s = "(connected_daemon ())\<lparr>lctx_cid := 1\<rparr>"
  obtain st p' s' where e: "exec_op sample_hw (Some 0) (sample_op 0 1 2 0) ?s = Some (st, p', s')"
    using hw.exec_op_holds [of sample_kernel sample_regs "Some 0" "sample_op 0 1 2 0" ?s] by (auto simp: holds_iff)
  have "lint_only 1 ?s"
    by (simp add: lint_only_def connect_def sample_daemon_def init_daemon_def chain_pool_def zero_daemon_def)
  from lone_client_silent [OF this _ e] e show ?thesis by simp
qed

lemma trace_v_fields:
  "rd_ring (trace_v K p t s) = rd_ring s" "lctx_cid (trace_v K p t s) = lctx_cid s" "syslog (trace_v K p t s) = syslog s"
  by (simp_all add: trace_v_def now_us_def Let_def split: prod.split)

lemma warn_line_fields:
  "rd_ring (warn_line K t s) = rd_ring s" "lctx_cid (warn_line K t s) = lctx_cid s"
  "syslog (warn_line K t s) = syslog s @ [(LOG_WARNING, snprintf 256 t)]"
  by (simp_all add: warn_line_def log_msg_def trace_v_fields)

lemma lint_page_keeps:
  "returns (lint_page K p s) (\<lambda>s'. rd_ring s' = rd_ring s \<and> lctx_cid s' = lctx_cid s \<and> (\<exists>x. syslog s' = syslog s @ x))"
  by (auto simp: lint_page_def wp_simps Let_def warn_line_fields split: option.split)

lemma lint_op_split:
  assumes "lint_op K R p s = Some s'" and "now_us K s = (t, r)"
  obtains s2 x where "s' = lint_rmw K t p (lint_cor K R t p s2)" and "rd_ring s2 = rd_ring s" and "lctx_cid s2 = lctx_cid s"
    and "syslog s2 = syslog s @ x"
proof -
  from assms obtain s2 where s2: "lint_page K p r = Some s2" "s' = lint_rmw K t p (lint_cor K R t p s2)"
    by (auto simp: lint_op_def Option.bind_eq_Some_conv)
  moreover have "rd_ring r = rd_ring s" "lctx_cid r = lctx_cid s" "syslog r = syslog s"
    using assms(2) by (auto simp: now_us_def Let_def split: prod.splits)
  ultimately show ?thesis using lint_page_keeps [of K p r] that by (auto simp: returns_iff)
qed

lemma read_recorded:
  assumes "lint_op K R p s = Some s'" and "now_us K s = (t, r)" and "o_write p = 0"
  shows "\<exists>w < RD_RING_COUNT. rd_cid (rd_ring s' w) = lctx_cid s \<and> rd_slice (rd_ring s' w) = o_slice p \<and>
    rd_mmd (rd_ring s' w) = o_mmd p \<and> rd_reg (rd_ring s' w) = o_reg p \<and> rd_ts (rd_ring s' w) = t"
proof -
  obtain s2 where s2: "s' = lint_rmw K t p (lint_cor K R t p s2)" "lctx_cid s2 = lctx_cid s"
    using lint_op_split [OF assms(1,2)] by metis
  have "lctx_cid (lint_cor K R t p s2) = lctx_cid s2" by (simp add: lint_cor_def Let_def warn_line_fields)
  moreover have "unat x mod RD_RING_COUNT < RD_RING_COUNT" for x :: u32 by (simp add: RD_RING_COUNT_def)
  ultimately show ?thesis using s2 assms(3)
    by (intro exI [of _ "unat (rd_w (lint_cor K R t p s2)) mod RD_RING_COUNT"]) (simp add: lint_rmw_def Let_def)
qed



end
