(* ===== verification/Spec2Isabelle.thy ===== *)
theory Spec2Isabelle
  imports Startup Fuzz_Seeds End_To_End Mailbox_Wire Mailbox_Wait Diagnostics
begin

text \<open>
  A verification of \<^verbatim>\<open>mepa-spidev-proxy\<close>: the daemon \<^verbatim>\<open>lan80xx-spid\<close>, which owns the SPI bus of a
  LAN80xx PHY and serves register accesses to several clients, its command-line client
  \<^verbatim>\<open>spiproxy-cli\<close>, and the fuzzing harnesses of both.

  \<^bold>\<open>How the program works.\<close> The daemon is one thread around an epoll loop. A datagram from a client
  is validated (\<^verbatim>\<open>client_frame\<close>) and copied into one of 256 static items, linked into one of three
  priority queues (\<^verbatim>\<open>enqueue\<close>). \<^verbatim>\<open>drain_queues\<close> takes the first eligible item, runs it
  (\<^verbatim>\<open>exec_item\<close>), sends one response and returns the item to the free list. A client may claim
  the whole device; then the bus requests of the others wait, and if the claim ends abnormally
  the daemon runs the cleanup operations deposited with it. A mailbox request talks to the
  microcontroller of the PHY over many registers and waits for its answer; the wait re-enters
  \<^verbatim>\<open>drain_queues\<close>, and a guard keeps other clients out of the mailbox registers meanwhile.

  \<^bold>\<open>How it is modelled.\<close> A C function is a HOL function on the record \<open>'w daemon\<close> (the global \<^verbatim>\<open>g\<close>, plus
  what was logged and sent), in the option monad where the code could have undefined behaviour:
  \<^term>\<open>None\<close> is an access out of bounds or a pointer loop that never ends. Pointers into static
  arrays are indices. Machine integers are words of their width. The kernel, libc's sockets and clock,
  the uninitialised stack and the generated \<^verbatim>\<open>lan80xx_regs.h\<close> are parameters: the records
  \<open>kernel\<close>, \<open>sockets\<close>, \<open>host\<close>, \<open>cli_host\<close> and \<open>lan80xx_regs\<close> over an arbitrary world \<open>'w\<close>.
  The functions that \<^verbatim>\<open>SPIPROXY_FUZZ\<close> switches are the record \<open>build\<close>, with the instances
  \<open>hw_build\<close> and \<open>fuzz_build\<close>.

  \<^bold>\<open>The theories\<close>, in the order of the code:

  \<^item> \<open>Spid_Prelude\<close>, \<open>C_Printf\<close>: the logic of partial computations (\<open>holds\<close>: defined and; \<open>returns\<close>: if
    defined), byte memory, little-endian words; the conversions of \<^verbatim>\<open>printf\<close> in use.
  \<^item> \<open>Protocol\<close> (\<^verbatim>\<open>spiproxy.h\<close>): enumerations, structures, byte layout; the locale \<open>wire_format\<close>,
    interpreted for each structure.
  \<^item> \<open>Daemon_State\<close>, \<open>Log\<close> (\<^verbatim>\<open>lan80xx_spid.c\<close> to \<^verbatim>\<open>reg_name\<close>, \<^verbatim>\<open>log.c\<close>): state, constants, frames, logging.
  \<^item> \<open>Spi_Core\<close>: frame layout, register access and reset pulse of both builds; the locale
    \<open>spi_backend\<close> says what the rest relies on. \<open>Op_Exec\<close>: the op log, the lint detectors, \<^verbatim>\<open>exec_op\<close>.
  \<^item> \<open>Queue_Heap\<close>: responses, \<^verbatim>\<open>enqueue\<close>, the selection loop of \<^verbatim>\<open>drain_queues\<close>, the purge; the lists
    through the pool (\<open>sched_ok\<close>), and the contract \<open>work_queue\<close>. \<open>Handlers\<close>: the cases of
    \<^verbatim>\<open>exec_item\<close> that do not yield. \<open>Crc16\<close>, \<open>Mailbox\<close>: both halves of \<^verbatim>\<open>exec_mailbox\<close>.
    \<open>Dispatch\<close>: the wait, \<^verbatim>\<open>exec_item\<close>, \<^verbatim>\<open>drain_queues\<close>, and \<open>serves\<close>, what a run does to queues, claims
    and replies.
  \<^item> \<open>Server\<close>: clients, the main loop as the step relation \<open>server_step\<close>, its invariant
    \<open>server_inv\<close>. \<open>Parse_Uint\<close> (\<^verbatim>\<open>parse.c\<close>), \<open>C_Getopt\<close>, \<open>Startup\<close>: \<^verbatim>\<open>main\<close> around the loop.
  \<^item> \<open>Fuzz_Build\<close>, \<open>Fuzz_Harness\<close> (\<^verbatim>\<open>fuzz_common.h\<close>, \<^verbatim>\<open>fuzz_msg.c\<close>, \<^verbatim>\<open>fuzz_frame.c\<close>), \<open>Fuzz_Seeds\<close>
    (\<^verbatim>\<open>gen_seeds.py\<close>), \<open>Cli\<close> (\<^verbatim>\<open>spiproxy_cli.c\<close>, \<^verbatim>\<open>fuzz_resp.c\<close>).
  \<^item> Theories of properties: \<open>Scheduling\<close>, \<open>Spi_Device\<close>, \<open>Isolation\<close>, \<open>Mailbox_Guard\<close>, \<open>Claiming\<close>,
    \<open>Requests\<close>, \<open>Mailbox_Wire\<close>, \<open>Mailbox_Wait\<close>, \<open>Diagnostics\<close>, \<open>End_To_End\<close>. \<open>Samples\<close> holds the
    concrete states on which theorems are applied.

  \<^bold>\<open>What is shown.\<close>

  \<^item> Whole daemon (this theory): every reachable state satisfies the invariant, no turn of the loop
    has undefined behaviour, every request taken gets exactly one reply.
  \<^item> Scheduling: taking, adding and dropping requests refine operations on three lists of
    requests; malformed datagrams are refused; a connection gets the lowest free slot.
  \<^item> Device: against a device with pipelined reads (\<open>spi_device\<close>), writes are read back, a batch is its
    operations in sequence up to the first failure, and a read or write travels from the client's
    datagram to the registers and back into the client's parser.
  \<^item> Claims: others' requests put nothing on the bus, abnormal ends run the cleanup operations.
  \<^item> Mailbox: the CRC is the CCITT one, requests and responses have the packet format, a response
    damaged in up to 16 consecutive bits of header and payload is refused, the wait ends by its deadline, and no other
    client's access reaches the mailbox while a transaction is in flight.
  \<^item> Diagnostics: the op log, TRACE and STATS report what happened; the lint detectors stay silent for
    one client and report a torn read-modify-write.
  \<^item> Fuzzing: the scheduler ends on the stub backend, no campaign of inputs trips the oracle, and
    generated seeds are taken apart as they were put together.
  \<^item> Flaws that the model exhibits, as theorems: a STATS reply that overflows, a guard passed by an
    alias of the MMD number, a reset under a foreign claim, a client that reads past its buffer.

  \<^bold>\<open>Bounds and fuel.\<close> Only the mailbox wait and the client's \<^verbatim>\<open>hammer\<close> loop may run forever, so \<open>mb_wait\<close>,
  \<open>drain_queues\<close> and \<open>hammer_loop\<close> carry fuel; running out is the value \<open>Starved\<close> (\<open>Some None\<close> for
  \<^verbatim>\<open>hammer\<close>), never confused with undefined behaviour. On the stub backend \<open>2 * 256 + 7\<close> suffices, since a
  transaction polls twice. On hardware, six more than the milliseconds left to the deadline suffice,
  given a clock that keeps up with the sleeps (\<open>steady\<close>). Safety theorems hold for any fuel. The invariant
  assumes a device path and reset line name of together at most 1800 characters, because STATS
  overflows with much longer ones.

  \<^bold>\<open>Not modelled.\<close> The texts of \<^verbatim>\<open>usage\<close>, what \<^verbatim>\<open>perror\<close> and \<^verbatim>\<open>getopt\<close> print in the daemon, and opening
  and closing the log (\<^verbatim>\<open>log_open\<close>, \<^verbatim>\<open>log_close\<close>) are output only; \<open>log_sink\<close> stands for the sink once it is
  open. The build scripts have no behaviour at run time. The generator of \<^verbatim>\<open>lan80xx_regs.h\<close> reads vendor
  headers outside the repository: its MMD table is modelled as constants, the register
  offsets it would find are the parameter \<open>lan80xx_regs\<close>. Signals are delivered between turns of the
  loop, where the flag they set is read.
\<close>

section \<open>A start-up on which the theorems are applied\<close>

definition sample_host :: "'w host" where
  "sample_host =
     \<lparr>ho_fopen = (\<lambda>p w. (True, w)), ho_open_spi = (\<lambda>p w. (True, w)), ho_flock = (\<lambda>w. (True, w)), ho_spi_mode = (\<lambda>w. w),
      ho_chip_open = (\<lambda>n w. (n = 1, w)), ho_chip_info = (\<lambda>n w. (Some (''gpiochip1'', 2), w)),
      ho_line_info = (\<lambda>n i w. (Some (if i = 1 then ''lan8023-rst'' else ''led''), w)),
      ho_line_request = (\<lambda>n i w. (9, w)), ho_chip_close = (\<lambda>n w. w), ho_unlink = (\<lambda>p w. w),
      ho_listen = (\<lambda>p w. (True, w)), ho_strerror = (\<lambda>w. [])\<rparr>"

definition sample_args :: "string list" where
  "sample_args = [''-d'', ''/dev/spidev0.0'', ''-p2'']"

lemma sample_main: "\<exists>s. daemon_main sample_host sample_kernel sample_regs sample_args () = Inr s \<and>
    dev s = ''/dev/spidev0.0'' \<and> rst_fd s = - 1 \<and> pad s = 2"
proof -
  have g: "fst (getopt (optstring ''d:s:p:f:r:L:h'') sample_args) = [Opt CHR ''d'' ''/dev/spidev0.0'', Opt CHR ''p'' ''2'']"
    by (simp add: getopt_def sample_args_def)
  have "parse_uint ''2'' 10 0 SPI_PAD_MAX = Inr 2"
    by (simp add: parse_uint_def strtoul_def digits_val_def digit_val_def is_digit_def is_space_def ULONG_MAX_def const_defs)
  then have opts: "daemon_opts sample_host [Opt CHR ''d'' ''/dev/spidev0.0'', Opt CHR ''p'' ''2''] (False, s) =
      Inr (True, s\<lparr>dev := ''/dev/spidev0.0'', pad := 2\<rparr>)" for s :: "unit daemon"
    by (simp add: daemon_opt_def)
  have "\<exists>s'. daemon_start sample_host sample_kernel sample_regs s = Inr s' \<and> dev s' = dev s \<and> rst_fd s' = rst_fd s \<and> pad s' = pad s"
    if "rst_line s = None" for s :: "unit daemon"
    using that
    by (simp add: daemon_start_def sample_host_def probe_device_def spi_read_reg_def sample_kernel_def setup_reset_def
        enter_loop_def chain_pool_def Let_def)
  from this [of "(zero_daemon ())\<lparr>sock := SPIPROXY_SOCK, freq := 5000000, rst_fd := - 1, dev := ''/dev/spidev0.0'', pad := 2, lctx_tag := ''''\<rparr>"]
  show ?thesis by (simp add: daemon_main_def g opts Let_def zero_daemon_def del: daemon_opts.simps)
qed

section \<open>The reset line\<close>

text \<open>
  C40. The reset line is the one the reference names: of the GPIO chips numbered below 64, in
  order, the first on which the kernel grants the first line of that name. If there is none the
  daemon goes on with the reset disabled (descriptor minus one).
\<close>

theorem reset_line_found:
  assumes "static_gpio chips req H" and "rst_line s = Some name"
  shows "rst_fd (setup_reset H K s) =
    (case find (\<lambda>n. 0 \<le> granted chips req name n) [0..<64] of None \<Rightarrow> - 1 | Some n \<Rightarrow> granted chips req name n)"
  using scan_chips_static [OF assms(1), of K name "[0..<64]" s] assms(2)
  by (simp add: setup_reset_def gpio_open_line_by_name_def split_beta)

theorem reset_line_found_witness:
  "rst_fd (setup_reset sample_host sample_kernel ((sample_daemon ())\<lparr>rst_line := Some ''lan8023-rst''\<rparr>)) = 9"
proof -
  let ?chips = "\<lambda>n :: nat. if n = 1 then Some (''gpiochip1'', [''led'', ''lan8023-rst'']) else None"
  have st: "static_gpio ?chips (\<lambda>n i. 9) (sample_host :: unit host)"
    by (auto simp: static_gpio_def sample_host_def less_Suc_eq)
  have "granted ?chips (\<lambda>n i. 9) ''lan8023-rst'' n = (if n = 1 then 9 else - 1)" for n
    by (simp add: granted_def chip_line_def upt_conv_Cons)
  moreover have "find (\<lambda>n. 0 \<le> (if n = 1 then 9 else - 1 :: int)) [0..<64] = Some 1"
    by (simp add: upt_conv_Cons)
  ultimately show ?thesis
    using reset_line_found [OF st, of "(sample_daemon ())\<lparr>rst_line := Some ''lan8023-rst''\<rparr>" "''lan8023-rst''" sample_kernel]
    by simp
qed

section \<open>The server\<close>

text \<open>
  C1. Every state the daemon reaches, from any command line it accepts, by any sequence of loop
  turns and signals, on any hardware, satisfies the server invariant: free list and queues
  partition the pool with exact links, tails and count; every queued request and the claim
  belong to a connected client; every stored length is within its buffer; no mailbox
  transaction is open. The device path and the reset line name have at most 1800 characters
  together.
\<close>

theorem server_inv_reachable:
  assumes "daemon_main H K R args w = Inr s0" and "length (dev s0) + length (rst_text s0) \<le> 1800"
    and "reachable S (hw_build K R) s0 s"
  shows "server_inv s"
  using hw.reachable_inv [OF assms(3) daemon_main_inv [OF assms(1,2)]] .

theorem server_inv_reachable_witness:
  "\<exists>s0. daemon_main sample_host sample_kernel sample_regs sample_args () = Inr s0 \<and> server_inv (s0\<lparr>stop := True\<rparr>)"
proof -
  obtain s0 where m: "daemon_main sample_host sample_kernel sample_regs sample_args () = Inr s0"
    and d: "dev s0 = ''/dev/spidev0.0''" "rst_fd s0 = - 1" using sample_main by blast
  have "reachable sample_sockets sample_hw s0 (s0\<lparr>stop := True\<rparr>)"
    by (rule reachable.step [OF reachable.start server_step.on_sig])
  then have "server_inv (s0\<lparr>stop := True\<rparr>)"
    by (rule server_inv_reachable [OF m, rotated]) (simp add: d rst_text_def)
  with m show ?thesis by blast
qed

text \<open>
  C2. A turn of the main loop has no undefined behaviour: from an invariant state, with any
  events epoll may report, any datagrams, any replies of the device and any amount of fuel, it
  accesses no array out of bounds and follows no broken link, and if it ends, the invariant
  holds again.
\<close>

theorem loop_turn_safe:
  assumes "server_inv s" and "events_ok s evs"
  shows "ends (loop_body n S (hw_build K R) evs s) server_inv"
  using hw.loop_body_inv [OF assms] .

theorem loop_turn_safe_witness:
  "ends (loop_body 100 sample_sockets sample_hw [Client 0, Listening] (queued SPIPROXY_STATS [] ())) server_inv"
proof (rule loop_turn_safe)
  show "server_inv (queued SPIPROXY_STATS [] ())" by (rule queued_facts(3)) simp
  show "events_ok (queued SPIPROXY_STATS [] ()) [Client 0, Listening]"
    by (simp add: events_ok_def queued_facts(8) connected_fields sample_client_def const_defs)
qed

text \<open>
  C3. Exactly one response per request: when the scheduler returns, the messages it has sent are,
  as a multiset of destination, type and sequence number, those of the requests that left the
  queues; the requests left over are in their old order; nothing is in flight.
\<close>

theorem drain_one_reply_each:
  assumes "sched_ok s F Q []" and "daemon_ok s" and "drain_queues n (hw_build K R) b s = Some (Ran s')"
  shows "\<exists>F' Q' ms. sched_ok s' F' Q' [] \<and> (\<forall>q < 3. subseq (Q' q) (Q q)) \<and> sent s' = sent s @ ms \<and>
    image_mset reply_key (mset ms) + image_mset (item_key s) (qset Q') = image_mset (item_key s) (qset Q)"
proof -
  have "serves [] [] s s'" using hw.drain_serves [OF assms(1,2), of n K R b] assms(3) by (simp add: wp_simps)
  with assms(1) obtain F' Q' ms where "sched_ok s' F' Q' []" "\<forall>q < 3. subseq (Q' q) (Q q)" "sent s' = sent s @ ms"
    "image_mset reply_key (mset ms) + image_mset (item_key s) (qset Q') = image_mset (item_key s) (qset Q + mset [])"
    unfolding serves_def by blast
  then show ?thesis by (metis add.right_neutral mset.simps(1))
qed

theorem drain_one_reply_each_witness:
  "\<exists>s' F' Q' ms. drain_queues 3 sample_hw 1 (queued SPIPROXY_STATS [] ()) = Some (Ran s') \<and> sched_ok s' F' Q' [] \<and>
    sent s' = sent (queued SPIPROXY_STATS [] ()) @ ms \<and>
    image_mset reply_key (mset ms) + image_mset (item_key (queued SPIPROXY_STATS [] ())) (qset Q') =
      image_mset (item_key (queued SPIPROXY_STATS [] ())) (qset one_queued)"
proof -
  let ?s = "queued SPIPROXY_STATS [] ()"
  have q: "sched_ok ?s [1..<MAX_QITEMS] one_queued []" "daemon_ok ?s" by (rule queued_facts; simp)+
  obtain s' where d: "drain_queues 3 sample_hw 1 ?s = Some (Ran s')"
    using hw.one_drained [OF q] by (auto simp: queued_facts(10) queued_type)
  from drain_one_reply_each [OF q d] d show ?thesis by blast
qed

section \<open>Termination\<close>

text \<open>
  C11. In the hardware-free build the scheduler always returns: whatever is queued, whatever the
  stub feed and the clock deliver, fuel of the budget plus seven is enough, and no mailbox
  transaction is left open.
\<close>

theorem fuzz_drain_terminates:
  assumes "sched_ok s F Q []" and "daemon_ok s" and "\<not> mb_inflight s" and "rst_fd s < 0" and "b + 7 \<le> n"
  shows "\<exists>s'. drain_queues n (fuzz_build (fuzz_kernel K) R) b s = Some (Ran s') \<and> \<not> mb_inflight s'"
  using drain_returns [OF assms] by blast

theorem fuzz_drain_terminates_witness:
  "\<exists>s'. drain_queues 71 (fz_build sample_kernel sample_regs) 64 (queued SPIPROXY_MAILBOX (enc_mb sample_mb) sample_feed) =
      Some (Ran s') \<and> \<not> mb_inflight s'"
proof -
  have l: "length (enc_mb sample_mb) \<le> SPIPROXY_MSG_MAX" by (simp add: mbf.length_enc const_defs)
  show ?thesis
    by (rule fuzz_drain_terminates [OF queued_facts(2,4,11) [OF l]]) (simp_all add: queued_facts(12) [OF l])
qed

end
